theory Spec2Isabelle
  imports Main "HOL-Library.AList"
begin

section \<open>Python values and exceptions\<close>

text \<open>
  The assistant of \<^verbatim>\<open>agent1.1.py\<close> works on the values that \<^verbatim>\<open>json.loads\<close> returns:
  \<^verbatim>\<open>None\<close>, booleans, numbers, strings, lists and dictionaries. A dictionary is an
  association list with distinct keys in insertion order, as a Python \<^verbatim>\<open>dict\<close> is. A float
  is kept as the numeral that denoted it: the assistant never computes with one.
  Strings are lists of 8-bit characters, read as the code points below 256.
\<close>

datatype pyval =
    PyNone
  | PyBool bool
  | PyInt int
  | PyFloat string
  | PyStr string
  | PyList "pyval list"
  | PyDict "(string \<times> pyval) list"

text \<open>The exceptions the modelled code can raise; \<open>ServiceError\<close> is any failure of the
  text-generation service.\<close>

datatype error =
    KeyError
  | TypeError
  | ValueError
  | AttributeError
  | OverflowError
  | ServiceError

text \<open>\<^verbatim>\<open>v[k]\<close> for a string key: a missing key of a dictionary raises \<^verbatim>\<open>KeyError\<close>, and
  every other kind of value raises \<^verbatim>\<open>TypeError\<close> (a string or a list wants integer indices,
  the other values are not subscriptable).\<close>

fun getitem :: "pyval \<Rightarrow> string \<Rightarrow> error + pyval" where
  "getitem (PyDict kvs) k = (case map_of kvs k of None \<Rightarrow> Inl KeyError | Some v \<Rightarrow> Inr v)"
| "getitem _ k = Inl TypeError"

text \<open>\<^verbatim>\<open>v[k] = x\<close> for a string key.\<close>

fun setitem :: "pyval \<Rightarrow> string \<Rightarrow> pyval \<Rightarrow> error + pyval" where
  "setitem (PyDict kvs) k x = Inr (PyDict (AList.update k x kvs))"
| "setitem _ k x = Inl TypeError"

text \<open>\<^verbatim>\<open>v.get(k, default)\<close>: only a dictionary has the method.\<close>

fun get_default :: "pyval \<Rightarrow> string \<Rightarrow> pyval \<Rightarrow> error + pyval" where
  "get_default (PyDict kvs) k dflt = (case map_of kvs k of None \<Rightarrow> Inr dflt | Some v \<Rightarrow> Inr v)"
| "get_default _ k dflt = Inl AttributeError"

section \<open>Strings\<close>

text \<open>The characters \<^verbatim>\<open>str.isspace\<close>, \<^verbatim>\<open>str.strip\<close> and the regular expression class
  \<^verbatim>\<open>\s\<close> treat as whitespace, among the code points below 256.\<close>

definition isspace :: "char \<Rightarrow> bool" where
  "isspace c = (of_char c \<in> {9, 10, 11, 12, 13, 28, 29, 30, 31, 32, 133, 160 :: nat})"

definition lstrip :: "string \<Rightarrow> string" where
  "lstrip s = dropWhile isspace s"

definition rstrip :: "string \<Rightarrow> string" where
  "rstrip s = rev (dropWhile isspace (rev s))"

definition strip :: "string \<Rightarrow> string" where
  "strip s = rstrip (lstrip s)"

definition startswith :: "string \<Rightarrow> string \<Rightarrow> bool" where
  "startswith s p = (take (length p) s = p)"

text \<open>\<^verbatim>\<open>p in s\<close> on strings.\<close>

fun contains :: "string \<Rightarrow> string \<Rightarrow> bool" where
  "contains [] p = (p = [])"
| "contains (c # cs) p = (startswith (c # cs) p \<or> contains cs p)"

text \<open>\<^verbatim>\<open>str.lower\<close> on the code points below 256: the ASCII capitals and the Latin-1
  capitals (all of 0xC0..0xDE but the multiplication sign) move up by 32.\<close>

definition lower_char :: "char \<Rightarrow> char" where
  "lower_char c =
     (let n = (of_char c :: nat)
      in if (65 \<le> n \<and> n \<le> 90) \<or> (192 \<le> n \<and> n \<le> 222 \<and> n \<noteq> 215)
         then char_of (n + 32) else c)"

definition lower :: "string \<Rightarrow> string" where
  "lower s = map lower_char s"

text \<open>
  \<^verbatim>\<open>re.sub(r'```json\s*|\s*```', '', s)\<close>. The scan goes left to right. At each position
  the first alternative is tried first: the opening fence with its \<^verbatim>\<open>json\<close> tag and all the
  whitespace after it. The second alternative is a run of whitespace followed by three
  backticks; a whitespace character is no backtick, so the run is the longest one. A
  match is dropped and the scan goes on behind it; where nothing matches, the character is
  kept. Both alternatives match three characters at least, so no match is empty.
\<close>

function re_sub_fences :: "string \<Rightarrow> string" where
  "re_sub_fences [] = []"
| "re_sub_fences (c # cs) =
     (if startswith (c # cs) ''```json''
      then re_sub_fences (dropWhile isspace (drop 7 (c # cs)))
      else if startswith (dropWhile isspace (c # cs)) ''```''
      then re_sub_fences (drop 3 (dropWhile isspace (c # cs)))
      else c # re_sub_fences cs)"
  by pat_completeness auto
termination
proof (relation "measure length")
  show "wf (measure length)" by simp
next
  fix c :: char and cs :: string
  have "length (dropWhile isspace (drop 7 (c # cs))) \<le> length (drop 7 (c # cs))"
    by (rule length_dropWhile_le)
  then show "(dropWhile isspace (drop 7 (c # cs)), c # cs) \<in> measure length"
    by simp
next
  fix c :: char and cs :: string
  have "length (dropWhile isspace (c # cs)) \<le> length (c # cs)"
    by (rule length_dropWhile_le)
  then show "(drop 3 (dropWhile isspace (c # cs)), c # cs) \<in> measure length"
    by simp
next
  fix c :: char and cs :: string
  show "(cs, c # cs) \<in> measure length" by simp
qed

declare re_sub_fences.simps [simp del]

text \<open>Line 134 of the source: the fences are removed, then the ends are stripped.\<close>

definition clean_fences :: "string \<Rightarrow> string" where
  "clean_fences llm_response = strip (re_sub_fences llm_response)"

section \<open>Dates and times\<close>

text \<open>
  A \<^verbatim>\<open>datetime\<close> is its wall-clock reading, its \<^verbatim>\<open>fold\<close> bit and its \<^verbatim>\<open>tzinfo\<close>. The
  reading is kept the way the library's arithmetic sees it: the proleptic Gregorian
  ordinal of the date (1 for 0001-01-01) times the microseconds of a day, plus the
  microseconds since midnight. A \<^verbatim>\<open>timedelta\<close> is a number of microseconds.
\<close>

definition us_per_second :: int where
  "us_per_second = 1000000"

definition us_per_day :: int where
  "us_per_day = 86400 * us_per_second"

definition MAXORDINAL :: int where
  "MAXORDINAL = 3652059"

text \<open>The \<^verbatim>\<open>tzinfo\<close> objects that occur: the fixed offset (in microseconds) that
  \<^verbatim>\<open>fromisoformat\<close> builds for a string with an offset, and the one object
  \<^verbatim>\<open>local_tz\<close> that \<^verbatim>\<open>tzlocal.get_localzone()\<close> returns.\<close>

datatype tzinfo = FixedOffset int | LocalZone

record datetime =
  wall :: int
  fold_dt :: bool
  tz :: "tzinfo option"

definition toordinal :: "datetime \<Rightarrow> int" where
  "toordinal d = wall d div us_per_day"

text \<open>\<^verbatim>\<open>datetime.weekday()\<close>: Monday is 0, Friday is 4, Sunday is 6.\<close>

definition weekday :: "datetime \<Rightarrow> int" where
  "weekday d = (toordinal d + 6) mod 7"

text \<open>The readings a \<^verbatim>\<open>datetime\<close> can hold: 0001-01-01 to 9999-12-31.\<close>

definition in_range :: "int \<Rightarrow> bool" where
  "in_range w = (0 < w div us_per_day \<and> w div us_per_day \<le> MAXORDINAL)"

text \<open>\<^verbatim>\<open>d + timedelta(days=k)\<close>: the date moves, the time of day and the \<^verbatim>\<open>tzinfo\<close> stay,
  the fold bit is cleared, and a date outside the range raises \<^verbatim>\<open>OverflowError\<close>.\<close>

definition add_days :: "datetime \<Rightarrow> int \<Rightarrow> error + datetime" where
  "add_days d k =
     (let w = wall d + k * us_per_day
      in if in_range w then Inr (d\<lparr>wall := w, fold_dt := False\<rparr>) else Inl OverflowError)"

subsection \<open>The calendar\<close>

definition is_leap :: "int \<Rightarrow> bool" where
  "is_leap y = (y mod 4 = 0 \<and> (y mod 100 \<noteq> 0 \<or> y mod 400 = 0))"

definition days_before_year :: "int \<Rightarrow> int" where
  "days_before_year y = (y - 1) * 365 + (y - 1) div 4 - (y - 1) div 100 + (y - 1) div 400"

definition DAYS_IN_MONTH :: "int list" where
  "DAYS_IN_MONTH = [31, 28, 31, 30, 31, 30, 31, 31, 30, 31, 30, 31]"

definition DAYS_BEFORE_MONTH :: "int list" where
  "DAYS_BEFORE_MONTH = [0, 31, 59, 90, 120, 151, 181, 212, 243, 273, 304, 334]"

text \<open>Both are called with a month from 1 to 12 only.\<close>

definition days_in_month :: "int \<Rightarrow> int \<Rightarrow> int" where
  "days_in_month y m = (if m = 2 \<and> is_leap y then 29 else DAYS_IN_MONTH ! nat (m - 1))"

definition days_before_month :: "int \<Rightarrow> int \<Rightarrow> int" where
  "days_before_month y m =
     DAYS_BEFORE_MONTH ! nat (m - 1) + (if m > 2 \<and> is_leap y then 1 else 0)"

definition ymd2ord :: "int \<Rightarrow> int \<Rightarrow> int \<Rightarrow> int" where
  "ymd2ord y m d = days_before_year y + days_before_month y m + d"

definition ord2ymd :: "int \<Rightarrow> int \<times> int \<times> int" where
  "ord2ymd n =
     (let n0 = n - 1;
          n400 = n0 div 146097; r400 = n0 mod 146097;
          n100 = r400 div 36524; r100 = r400 mod 36524;
          n4 = r100 div 1461; r4 = r100 mod 1461;
          n1 = r4 div 365; r1 = r4 mod 365;
          y = n400 * 400 + 1 + n100 * 100 + n4 * 4 + n1
      in if n1 = 4 \<or> n100 = 4 then (y - 1, 12, 31)
         else
           let leapyear = (n1 = 3 \<and> (n4 \<noteq> 24 \<or> n100 = 3));
               m = (r1 + 50) div 32;
               preceding = DAYS_BEFORE_MONTH ! nat (m - 1) + (if m > 2 \<and> leapyear then 1 else 0)
           in if preceding > r1
              then (y, m - 1,
                    r1 - (preceding - (DAYS_IN_MONTH ! nat (m - 2)
                                        + (if m - 1 = 2 \<and> leapyear then 1 else 0))) + 1)
              else (y, m, r1 - preceding + 1))"

text \<open>The reading of a date and a time of day, for writing examples.\<close>

definition wall_of :: "int \<Rightarrow> int \<Rightarrow> int \<Rightarrow> int \<Rightarrow> int \<Rightarrow> int \<Rightarrow> int \<Rightarrow> int" where
  "wall_of y m d hh mm ss us =
     ymd2ord y m d * us_per_day + ((hh * 60 + mm) * 60 + ss) * us_per_second + us"

subsection \<open>Decimal numerals\<close>

definition digit :: "nat \<Rightarrow> char" where
  "digit n = ''0123456789'' ! (n mod 10)"

function digits_of :: "nat \<Rightarrow> string" where
  "digits_of n = (if n < 10 then [digit n] else digits_of (n div 10) @ [digit n])"
  by pat_completeness auto
termination
  by (relation "measure id") auto

declare digits_of.simps [simp del]

text \<open>\<^verbatim>\<open>str(i)\<close> of an integer, and the format \<^verbatim>\<open>%0wd\<close> of a number that is not negative.\<close>

definition str_int :: "int \<Rightarrow> string" where
  "str_int i = (if i < 0 then CHR ''-'' # digits_of (nat (- i)) else digits_of (nat i))"

definition zpad :: "nat \<Rightarrow> int \<Rightarrow> string" where
  "zpad w i = replicate (w - length (digits_of (nat i))) CHR ''0'' @ digits_of (nat i)"

section \<open>The platform\<close>

text \<open>
  What the assistant takes from outside the repository: the decoder \<^verbatim>\<open>json.loads\<close>
  (\<open>None\<close> where it raises \<^verbatim>\<open>JSONDecodeError\<close>), the parser \<^verbatim>\<open>datetime.fromisoformat\<close>
  (\<open>None\<close> where it raises \<^verbatim>\<open>ValueError\<close>), the local time zone of
  \<^verbatim>\<open>tzlocal.get_localzone()\<close>, the clock, and \<^verbatim>\<open>repr\<close>. The zone is given by its two
  methods: \<open>zone_utcoffset\<close> is the offset from UTC (in microseconds) of a wall-clock
  reading with its fold bit, and \<open>zone_fromutc\<close> turns a UTC reading into the local reading
  and its fold bit. The functions of the repository below are stated for any platform.
\<close>

record platform =
  json_loads :: "string \<Rightarrow> pyval option"
  fromisoformat :: "string \<Rightarrow> datetime option"
  zone_utcoffset :: "int \<Rightarrow> bool \<Rightarrow> int"
  zone_fromutc :: "int \<Rightarrow> int \<times> bool"
  utc_clock :: int
  py_repr :: "pyval \<Rightarrow> string"

text \<open>\<^verbatim>\<open>d.utcoffset()\<close>, \<open>None\<close> for a naive \<^verbatim>\<open>datetime\<close>.\<close>

definition utcoffset :: "platform \<Rightarrow> datetime \<Rightarrow> int option" where
  "utcoffset pf d =
     (case tz d of
        None \<Rightarrow> None
      | Some (FixedOffset k) \<Rightarrow> Some k
      | Some LocalZone \<Rightarrow> Some (zone_utcoffset pf (wall d) (fold_dt d)))"

text \<open>The absolute instant a zone-aware \<^verbatim>\<open>datetime\<close> denotes, as a UTC reading.\<close>

definition instant :: "platform \<Rightarrow> datetime \<Rightarrow> int option" where
  "instant pf d = map_option (\<lambda>k. wall d - k) (utcoffset pf d)"

text \<open>\<^verbatim>\<open>datetime.now(local_tz)\<close>.\<close>

definition now :: "platform \<Rightarrow> datetime" where
  "now pf =
     \<lparr>wall = fst (zone_fromutc pf (utc_clock pf)),
      fold_dt = snd (zone_fromutc pf (utc_clock pf)),
      tz = Some LocalZone\<rparr>"

text \<open>
  Lines 161 to 164 (and 166 to 169) of the source. A naive \<^verbatim>\<open>datetime\<close> gets
  \<^verbatim>\<open>local_tz\<close> by \<^verbatim>\<open>replace\<close>: the reading stays. A zone-aware one goes through
  \<^verbatim>\<open>astimezone(local_tz)\<close>: it is returned as it is when its \<^verbatim>\<open>tzinfo\<close> is \<^verbatim>\<open>local_tz\<close>
  already, and else its offset is subtracted and the zone turns the UTC reading into a
  local one; a reading that leaves the range on the way raises \<^verbatim>\<open>OverflowError\<close>.
\<close>

definition to_local_tz :: "platform \<Rightarrow> datetime \<Rightarrow> error + datetime" where
  "to_local_tz pf d =
     (case tz d of
        None \<Rightarrow> Inr (d\<lparr>tz := Some LocalZone\<rparr>)
      | Some LocalZone \<Rightarrow> Inr d
      | Some (FixedOffset k) \<Rightarrow>
          (if in_range (wall d - k) \<and> in_range (fst (zone_fromutc pf (wall d - k)))
           then Inr \<lparr>wall = fst (zone_fromutc pf (wall d - k)),
                     fold_dt = snd (zone_fromutc pf (wall d - k)),
                     tz = Some LocalZone\<rparr>
           else Inl OverflowError))"

text \<open>
  \<^verbatim>\<open>a - b\<close> on two \<^verbatim>\<open>datetime\<close>s, a \<^verbatim>\<open>timedelta\<close>. With one and the same \<^verbatim>\<open>tzinfo\<close>
  object on both sides (or none on both) the readings are subtracted; otherwise the
  offsets are taken into account, and a naive operand with an aware one raises
  \<^verbatim>\<open>TypeError\<close>.
\<close>

definition dt_sub :: "platform \<Rightarrow> datetime \<Rightarrow> datetime \<Rightarrow> error + int" where
  "dt_sub pf a b =
     (if tz a = Some LocalZone \<and> tz b = Some LocalZone then Inr (wall a - wall b)
      else case (utcoffset pf a, utcoffset pf b) of
             (None, None) \<Rightarrow> Inr (wall a - wall b)
           | (Some x, Some y) \<Rightarrow> Inr (wall a - wall b + y - x)
           | _ \<Rightarrow> Inl TypeError)"

text \<open>The attributes \<^verbatim>\<open>seconds\<close> and \<^verbatim>\<open>days\<close> of a \<^verbatim>\<open>timedelta\<close>, and
  \<^verbatim>\<open>total_seconds()\<close> rounded down: \<^verbatim>\<open>seconds\<close> is what is left of the last day.\<close>

definition td_days :: "int \<Rightarrow> int" where
  "td_days t = t div us_per_day"

definition td_seconds :: "int \<Rightarrow> int" where
  "td_seconds t = (t mod us_per_day) div us_per_second"

definition td_total_seconds :: "int \<Rightarrow> int" where
  "td_total_seconds t = t div us_per_second"

subsection \<open>Writing a timestamp\<close>

definition format_offset :: "int option \<Rightarrow> string" where
  "format_offset off =
     (case off of
        None \<Rightarrow> []
      | Some k \<Rightarrow>
          (let a = \<bar>k\<bar>;
               hh = a div (3600 * us_per_second);
               mm = (a mod (3600 * us_per_second)) div (60 * us_per_second);
               ss = a mod (60 * us_per_second)
           in (if k < 0 then ''-'' else ''+'') @ zpad 2 hh @ '':'' @ zpad 2 mm
              @ (if ss = 0 then []
                 else '':'' @ zpad 2 (ss div us_per_second)
                      @ (if ss mod us_per_second = 0 then []
                         else ''.'' @ zpad 6 (ss mod us_per_second)))))"

text \<open>\<^verbatim>\<open>d.isoformat()\<close>.\<close>

definition isoformat :: "platform \<Rightarrow> datetime \<Rightarrow> string" where
  "isoformat pf d =
     (let (y, m, dd) = ord2ymd (toordinal d);
          t = wall d mod us_per_day;
          hh = t div (3600 * us_per_second);
          mm = (t div (60 * us_per_second)) mod 60;
          ss = (t div us_per_second) mod 60;
          us = t mod us_per_second
      in zpad 4 y @ ''-'' @ zpad 2 m @ ''-'' @ zpad 2 dd @ ''T''
         @ zpad 2 hh @ '':'' @ zpad 2 mm @ '':'' @ zpad 2 ss
         @ (if us = 0 then [] else ''.'' @ zpad 6 us)
         @ format_offset (utcoffset pf d))"

section \<open>The event normalizer\<close>

text \<open>\<^verbatim>\<open>datetime.fromisoformat(event[key]['dateTime'])\<close>, lines 157 and 158.\<close>

definition parse_dateTime :: "platform \<Rightarrow> pyval \<Rightarrow> string \<Rightarrow> error + datetime" where
  "parse_dateTime pf event key =
     (case getitem event key of
        Inl err \<Rightarrow> Inl err
      | Inr inner \<Rightarrow>
          (case getitem inner ''dateTime'' of
             Inl err \<Rightarrow> Inl err
           | Inr (PyStr s) \<Rightarrow>
               (case fromisoformat pf s of None \<Rightarrow> Inl ValueError | Some d \<Rightarrow> Inr d)
           | Inr _ \<Rightarrow> Inl TypeError))"

text \<open>Lines 157 to 169: both timestamps parsed, then both brought to the local zone.\<close>

definition resolve :: "platform \<Rightarrow> pyval \<Rightarrow> error + datetime \<times> datetime" where
  "resolve pf event =
     (case parse_dateTime pf event ''start'' of
        Inl err \<Rightarrow> Inl err
      | Inr start_time \<Rightarrow>
          (case parse_dateTime pf event ''end'' of
             Inl err \<Rightarrow> Inl err
           | Inr end_time \<Rightarrow>
               (case to_local_tz pf start_time of
                  Inl err \<Rightarrow> Inl err
                | Inr start_local \<Rightarrow>
                    (case to_local_tz pf end_time of
                       Inl err \<Rightarrow> Inl err
                     | Inr end_local \<Rightarrow> Inr (start_local, end_local)))))"

text \<open>\<^verbatim>\<open>'friday' in event['summary'].lower()\<close>, line 173: a missing key raises
  \<^verbatim>\<open>KeyError\<close>, and a summary that is no string has no method \<^verbatim>\<open>lower\<close>.\<close>

definition mentions_friday :: "pyval \<Rightarrow> error + bool" where
  "mentions_friday event =
     (case getitem event ''summary'' of
        Inl err \<Rightarrow> Inl err
      | Inr (PyStr s) \<Rightarrow> Inr (contains (lower s) ''friday'')
      | Inr _ \<Rightarrow> Inl AttributeError)"

text \<open>Lines 175 to 177.\<close>

definition friday_days_ahead :: "datetime \<Rightarrow> int" where
  "friday_days_ahead start_time =
     (let days_ahead = 4 - weekday start_time
      in if days_ahead \<le> 0 then days_ahead + 7 else days_ahead)"

definition step_days :: "bool \<Rightarrow> datetime \<Rightarrow> int" where
  "step_days friday start_time = (if friday then friday_days_ahead start_time else 1)"

text \<open>
  The loop of lines 172 to 183. Both operands of \<^verbatim>\<open>start_time < now\<close> carry the one
  object \<^verbatim>\<open>local_tz\<close> as their \<^verbatim>\<open>tzinfo\<close>, and two \<^verbatim>\<open>datetime\<close>s of the same
  \<^verbatim>\<open>tzinfo\<close> are compared by their wall-clock readings, the fold bit ignored.
\<close>

function project_forward ::
  "datetime \<Rightarrow> pyval \<Rightarrow> datetime \<Rightarrow> datetime \<Rightarrow> error + datetime \<times> datetime" where
  "project_forward now_dt event start_time end_time =
     (if wall start_time < wall now_dt
      then (case mentions_friday event of
              Inl err \<Rightarrow> Inl err
            | Inr friday \<Rightarrow>
                (case add_days start_time (step_days friday start_time) of
                   Inl err \<Rightarrow> Inl err
                 | Inr start_next \<Rightarrow>
                     (case add_days end_time (step_days friday start_time) of
                        Inl err \<Rightarrow> Inl err
                      | Inr end_next \<Rightarrow> project_forward now_dt event start_next end_next)))
      else Inr (start_time, end_time))"
  by pat_completeness auto
termination
proof (relation "measure (\<lambda>(now_dt, event, start_time, end_time). nat (wall now_dt - wall start_time))")
  show "wf (measure (\<lambda>(now_dt, event, start_time, end_time). nat (wall now_dt - wall start_time)))"
    by simp
next
  fix now_dt event start_time end_time friday start_next end_next
  assume lt: "wall start_time < wall now_dt"
    and st: "add_days start_time (step_days friday start_time) = Inr start_next"
  have "0 \<le> weekday start_time \<and> weekday start_time < 7"
    by (simp add: weekday_def)
  then have "1 \<le> step_days friday start_time"
    by (auto simp: step_days_def friday_days_ahead_def Let_def)
  then have "0 < step_days friday start_time * us_per_day"
    by (simp add: us_per_day_def us_per_second_def)
  moreover have "wall start_next = wall start_time + step_days friday start_time * us_per_day"
    using st by (auto simp: add_days_def Let_def split: if_splits)
  ultimately have "wall start_time < wall start_next" by simp
  with lt show "((now_dt, event, start_next, end_next), (now_dt, event, start_time, end_time))
      \<in> measure (\<lambda>(now_dt, event, start_time, end_time). nat (wall now_dt - wall start_time))"
    by simp
qed

declare project_forward.simps [simp del]

text \<open>\<^verbatim>\<open>event[key]['dateTime'] = s\<close>, lines 185 and 186.\<close>

definition set_dateTime :: "pyval \<Rightarrow> string \<Rightarrow> string \<Rightarrow> error + pyval" where
  "set_dateTime event key s =
     (case getitem event key of
        Inl err \<Rightarrow> Inl err
      | Inr inner \<Rightarrow>
          (case setitem inner ''dateTime'' (PyStr s) of
             Inl err \<Rightarrow> Inl err
           | Inr inner' \<Rightarrow> setitem event key inner'))"

definition write_back :: "platform \<Rightarrow> pyval \<Rightarrow> datetime \<Rightarrow> datetime \<Rightarrow> error + pyval" where
  "write_back pf event start_time end_time =
     (case set_dateTime event ''start'' (isoformat pf start_time) of
        Inl err \<Rightarrow> Inl err
      | Inr event' \<Rightarrow> set_dateTime event' ''end'' (isoformat pf end_time))"

text \<open>The body of the \<^verbatim>\<open>for\<close> loop of \<^verbatim>\<open>_adjust_event_dates\<close>, for the reference instant
  read at its start.\<close>

definition adjust_event :: "platform \<Rightarrow> pyval \<Rightarrow> error + pyval" where
  "adjust_event pf event =
     (case resolve pf event of
        Inl err \<Rightarrow> Inl err
      | Inr (start_time, end_time) \<Rightarrow>
          (case project_forward (now pf) event start_time end_time of
             Inl err \<Rightarrow> Inl err
           | Inr (start_time', end_time') \<Rightarrow> write_back pf event start_time' end_time'))"

text \<open>\<^verbatim>\<open>_adjust_event_dates\<close>: the events in turn; the first exception leaves the
  function, and with it the whole list.\<close>

fun adjust_event_dates :: "platform \<Rightarrow> pyval list \<Rightarrow> error + pyval list" where
  "adjust_event_dates pf [] = Inr []"
| "adjust_event_dates pf (event # events) =
     (case adjust_event pf event of
        Inl err \<Rightarrow> Inl err
      | Inr event' \<Rightarrow>
          (case adjust_event_dates pf events of
             Inl err \<Rightarrow> Inl err
           | Inr events' \<Rightarrow> Inr (event' # events')))"

section \<open>The structured-response parser\<close>

text \<open>
  \<^verbatim>\<open>_extract_calendar_events\<close> from the answer of the text-generation service on: an
  exception of the service, (\<open>Inl\<close>), or the text of its answer. The inner
  \<^verbatim>\<open>try\<close> catches the decoder's exception only; the outer one catches every exception,
  those of \<^verbatim>\<open>_adjust_event_dates\<close> among them, and returns the empty list.
\<close>

definition extract_calendar_events :: "platform \<Rightarrow> error + string \<Rightarrow> pyval list" where
  "extract_calendar_events pf completion =
     (case completion of
        Inl err \<Rightarrow> []
      | Inr llm_response \<Rightarrow>
          (case json_loads pf (clean_fences llm_response) of
             None \<Rightarrow> []
           | Some (PyList events) \<Rightarrow>
               (case adjust_event_dates pf events of Inl err \<Rightarrow> [] | Inr events' \<Rightarrow> events')
           | Some (PyDict kvs) \<Rightarrow>
               (case adjust_event_dates pf [PyDict kvs] of Inl err \<Rightarrow> [] | Inr events' \<Rightarrow> events')
           | Some _ \<Rightarrow> []))"

section \<open>The confirmation gate\<close>

text \<open>\<^verbatim>\<open>str(v)\<close> as an f-string formats a value: a string is itself, every other value is
  its \<^verbatim>\<open>repr\<close>.\<close>

definition py_str :: "platform \<Rightarrow> pyval \<Rightarrow> string" where
  "py_str pf v = (case v of PyStr s \<Rightarrow> s | _ \<Rightarrow> py_repr pf v)"

text \<open>\<^verbatim>\<open>_calculate_duration\<close>: both timestamps are parsed again from the event, and the
  hours and minutes are taken from the attribute \<^verbatim>\<open>seconds\<close> of their difference.\<close>

definition calculate_duration :: "platform \<Rightarrow> pyval \<Rightarrow> error + string" where
  "calculate_duration pf event =
     (case parse_dateTime pf event ''start'' of
        Inl err \<Rightarrow> Inl err
      | Inr start_dt \<Rightarrow>
          (case parse_dateTime pf event ''end'' of
             Inl err \<Rightarrow> Inl err
           | Inr end_dt \<Rightarrow>
               (case dt_sub pf end_dt start_dt of
                  Inl err \<Rightarrow> Inl err
                | Inr duration \<Rightarrow>
                    (let hours = td_seconds duration div 3600;
                         remainder = td_seconds duration mod 3600;
                         minutes = remainder div 60
                     in Inr (str_int hours @ '' hours and '' @ str_int minutes @ '' minutes'')))))"

text \<open>The line that \<^verbatim>\<open>_ask_for_confirmation\<close> prints for an event (line 193); the
  fields of the f-string are evaluated from left to right.\<close>

definition confirmation_line :: "platform \<Rightarrow> pyval \<Rightarrow> error + string" where
  "confirmation_line pf event =
     (case getitem event ''summary'' of
        Inl err \<Rightarrow> Inl err
      | Inr title \<Rightarrow>
          (case getitem event ''start'' of
             Inl err \<Rightarrow> Inl err
           | Inr inner \<Rightarrow>
               (case getitem inner ''dateTime'' of
                  Inl err \<Rightarrow> Inl err
                | Inr stamp \<Rightarrow>
                    (case calculate_duration pf event of
                       Inl err \<Rightarrow> Inl err
                     | Inr dur \<Rightarrow>
                         Inr (''- '' @ py_str pf title @ '' on '' @ py_str pf stamp
                              @ '' for '' @ dur)))))"

fun confirmation_lines :: "platform \<Rightarrow> pyval list \<Rightarrow> error + string list" where
  "confirmation_lines pf [] = Inr []"
| "confirmation_lines pf (event # events) =
     (case confirmation_line pf event of
        Inl err \<Rightarrow> Inl err
      | Inr ln \<Rightarrow>
          (case confirmation_lines pf events of
             Inl err \<Rightarrow> Inl err
           | Inr lns \<Rightarrow> Inr (ln # lns)))"

text \<open>\<^verbatim>\<open>_ask_for_confirmation\<close>: what is printed, and the operator's answer to
  \<^verbatim>\<open>input\<close>, which is read after the last line only.\<close>

definition ask_for_confirmation ::
  "platform \<Rightarrow> pyval list \<Rightarrow> string \<Rightarrow> error + string list \<times> string" where
  "ask_for_confirmation pf events answer =
     (case confirmation_lines pf events of
        Inl err \<Rightarrow> Inl err
      | Inr lns \<Rightarrow> Inr ([[], ''The following events will be created:''] @ lns, answer))"

text \<open>The line that \<^verbatim>\<open>chat\<close> prints for a detected event (line 58).\<close>

definition detected_line :: "platform \<Rightarrow> pyval \<Rightarrow> error + string" where
  "detected_line pf event =
     (case get_default event ''summary'' (PyStr ''Untitled Event'') of
        Inl err \<Rightarrow> Inl err
      | Inr title \<Rightarrow>
          (case get_default event ''start'' (PyDict []) of
             Inl err \<Rightarrow> Inl err
           | Inr inner \<Rightarrow>
               (case get_default inner ''dateTime'' (PyStr ''No time specified'') of
                  Inl err \<Rightarrow> Inl err
                | Inr stamp \<Rightarrow> Inr (''- '' @ py_str pf title @ '' at '' @ py_str pf stamp))))"

fun detected_lines :: "platform \<Rightarrow> pyval list \<Rightarrow> error + string list" where
  "detected_lines pf [] = Inr []"
| "detected_lines pf (event # events) =
     (case detected_line pf event of
        Inl err \<Rightarrow> Inl err
      | Inr ln \<Rightarrow>
          (case detected_lines pf events of
             Inl err \<Rightarrow> Inl err
           | Inr lns \<Rightarrow> Inr (ln # lns)))"

text \<open>
  \<^verbatim>\<open>chat\<close> from the extraction to the operator's decision (lines 52 to 66): the events
  are extracted and normalized, listed, and put to the operator. The result is what was
  printed and whether the events go on to the calendar service; an exception leaves
  \<^verbatim>\<open>chat\<close>, which catches none. The submission itself and the transcript are left out.
\<close>

definition chat_to_decision ::
  "platform \<Rightarrow> error + string \<Rightarrow> string \<Rightarrow> error + string list \<times> bool" where
  "chat_to_decision pf completion answer =
     (let events = extract_calendar_events pf completion
      in if events \<noteq> []
         then (case detected_lines pf events of
                 Inl err \<Rightarrow> Inl err
               | Inr lns \<Rightarrow>
                   (case ask_for_confirmation pf events answer of
                      Inl err \<Rightarrow> Inl err
                    | Inr (lns', confirmation) \<Rightarrow>
                        Inr ([[], ''Detected '' @ str_int (int (length events))
                                  @ '' event(s) to schedule:''] @ lns @ lns',
                             lower confirmation = ''yes'')))
         else Inr ([''No events detected for scheduling.''], False))"

section \<open>A concrete platform\<close>

text \<open>
  For the examples the platform is made concrete: a decoder for JSON texts, a parser for
  the timestamps that \<^verbatim>\<open>isoformat\<close> writes, and two zones. The decoder reads the JSON grammar
  with the whitespace, the literals and the numbers of \<^verbatim>\<open>json.loads\<close>; of the escapes
  \<^verbatim>\<open>\uXXXX\<close> in a string it reads those below 256, the code points a string of this
  model can hold.
\<close>

definition dquote :: char where
  "dquote = CHR 0x22"

definition backslash :: char where
  "backslash = CHR 0x5C"

definition json_ws :: "char \<Rightarrow> bool" where
  "json_ws c = (c = CHR '' '' \<or> c = CHR 0x09 \<or> c = CHR 0x0A \<or> c = CHR 0x0D)"

definition is_digit :: "char \<Rightarrow> bool" where
  "is_digit c = (48 \<le> (of_char c :: nat) \<and> (of_char c :: nat) \<le> 57)"

text \<open>The number a string of decimal digits denotes, \<open>None\<close> for any other string.\<close>

definition number :: "string \<Rightarrow> int option" where
  "number s =
     (if s \<noteq> [] \<and> list_all is_digit s
      then Some (foldl (\<lambda>a c. 10 * a + (of_char c - 48)) 0 s) else None)"

definition hex_digit :: "char \<Rightarrow> nat option" where
  "hex_digit c =
     (let n = (of_char c :: nat)
      in if 48 \<le> n \<and> n \<le> 57 then Some (n - 48)
         else if 65 \<le> n \<and> n \<le> 70 then Some (n - 55)
         else if 97 \<le> n \<and> n \<le> 102 then Some (n - 87)
         else None)"

definition unescape :: "char \<Rightarrow> char option" where
  "unescape c =
     (if c = dquote \<or> c = backslash \<or> c = CHR ''/'' then Some c
      else if c = CHR ''b'' then Some (CHR 0x08)
      else if c = CHR ''f'' then Some (CHR 0x0C)
      else if c = CHR ''n'' then Some (CHR 0x0A)
      else if c = CHR ''r'' then Some (CHR 0x0D)
      else if c = CHR ''t'' then Some (CHR 0x09)
      else None)"

text \<open>The rest of a string behind its opening quote: the string and what follows its
  closing quote.\<close>

fun scan_string :: "string \<Rightarrow> string \<Rightarrow> (string \<times> string) option" where
  "scan_string acc [] = None"
| "scan_string acc [c] = (if c = dquote then Some (rev acc, []) else None)"
| "scan_string acc (c # e # cs) =
     (if c = dquote then Some (rev acc, e # cs)
      else if c = backslash
      then (case unescape e of
              Some x \<Rightarrow> scan_string (x # acc) cs
            | None \<Rightarrow>
                (case cs of
                   h1 # h2 # h3 # h4 # cs' \<Rightarrow>
                     (if e = CHR ''u'' \<and> h1 = CHR ''0'' \<and> h2 = CHR ''0''
                      then (case (hex_digit h3, hex_digit h4) of
                              (Some a, Some b) \<Rightarrow> scan_string (char_of (16 * a + b) # acc) cs'
                            | _ \<Rightarrow> None)
                      else None)
                 | _ \<Rightarrow> None))
      else if (of_char c :: nat) < 32 then None
      else scan_string (c # acc) (e # cs))"

text \<open>A number: an integer, or a float kept as its numeral.\<close>

definition scan_number :: "string \<Rightarrow> (pyval \<times> string) option" where
  "scan_number s =
     (let neg = startswith s ''-'';
          s1 = (if neg then tl s else s);
          ds = takeWhile is_digit s1;
          r = dropWhile is_digit s1;
          frac = (if startswith r ''.'' then CHR ''.'' # takeWhile is_digit (tl r) else []);
          r1 = drop (length frac) r;
          sgn = (if startswith r1 ''e'' \<or> startswith r1 ''E''
                 then (if startswith (tl r1) ''+'' \<or> startswith (tl r1) ''-''
                       then take 2 r1 else take 1 r1)
                 else []);
          ex = (if sgn = [] then [] else sgn @ takeWhile is_digit (drop (length sgn) r1));
          r2 = drop (length ex) r1
      in if ds = [] \<or> (length ds > 1 \<and> hd ds = CHR ''0'') \<or> length frac = 1
            \<or> (sgn \<noteq> [] \<and> length ex = length sgn)
         then None
         else if frac = [] \<and> ex = []
         then map_option (\<lambda>n. (PyInt (if neg then - n else n), r)) (number ds)
         else Some (PyFloat (take (length s - length r2) s), r2))"

fun decode_value :: "nat \<Rightarrow> string \<Rightarrow> (pyval \<times> string) option"
  and decode_elems :: "nat \<Rightarrow> pyval list \<Rightarrow> string \<Rightarrow> (pyval \<times> string) option"
  and decode_members :: "nat \<Rightarrow> (string \<times> pyval) list \<Rightarrow> string \<Rightarrow> (pyval \<times> string) option"
where
  "decode_value 0 s = None"
| "decode_value (Suc n) s =
     (if startswith s [dquote]
      then map_option (\<lambda>(t, r). (PyStr t, r)) (scan_string [] (tl s))
      else if startswith s ''[''
      then (if startswith (dropWhile json_ws (tl s)) '']''
            then Some (PyList [], tl (dropWhile json_ws (tl s)))
            else decode_elems n [] (dropWhile json_ws (tl s)))
      else if startswith s ''{''
      then (if startswith (dropWhile json_ws (tl s)) ''}''
            then Some (PyDict [], tl (dropWhile json_ws (tl s)))
            else decode_members n [] (dropWhile json_ws (tl s)))
      else if startswith s ''null'' then Some (PyNone, drop 4 s)
      else if startswith s ''true'' then Some (PyBool True, drop 4 s)
      else if startswith s ''false'' then Some (PyBool False, drop 5 s)
      else if startswith s ''NaN'' then Some (PyFloat ''NaN'', drop 3 s)
      else if startswith s ''Infinity'' then Some (PyFloat ''Infinity'', drop 8 s)
      else if startswith s ''-Infinity'' then Some (PyFloat ''-Infinity'', drop 9 s)
      else scan_number s)"
| "decode_elems 0 acc s = None"
| "decode_elems (Suc n) acc s =
     (case decode_value n s of
        None \<Rightarrow> None
      | Some (v, r) \<Rightarrow>
          (if startswith (dropWhile json_ws r) '',''
           then decode_elems n (acc @ [v]) (dropWhile json_ws (tl (dropWhile json_ws r)))
           else if startswith (dropWhile json_ws r) '']''
           then Some (PyList (acc @ [v]), tl (dropWhile json_ws r))
           else None))"
| "decode_members 0 acc s = None"
| "decode_members (Suc n) acc s =
     (if startswith s [dquote]
      then (case scan_string [] (tl s) of
              None \<Rightarrow> None
            | Some (k, r) \<Rightarrow>
                (if startswith (dropWhile json_ws r) '':''
                 then (case decode_value n (dropWhile json_ws (tl (dropWhile json_ws r))) of
                         None \<Rightarrow> None
                       | Some (v, r') \<Rightarrow>
                           (if startswith (dropWhile json_ws r') '',''
                            then decode_members n (AList.update k v acc)
                                   (dropWhile json_ws (tl (dropWhile json_ws r')))
                            else if startswith (dropWhile json_ws r') ''}''
                            then Some (PyDict (AList.update k v acc), tl (dropWhile json_ws r'))
                            else None))
                 else None))
      else None)"

text \<open>The whole text is one value between whitespace.\<close>

definition json_decode :: "string \<Rightarrow> pyval option" where
  "json_decode s =
     (case decode_value (2 * length s + 2) (dropWhile json_ws s) of
        None \<Rightarrow> None
      | Some (v, r) \<Rightarrow> (if dropWhile json_ws r = [] then Some v else None))"

text \<open>
  The parser of timestamps: a date \<^verbatim>\<open>YYYY-MM-DD\<close>, alone or followed by one separator
  character, a time \<^verbatim>\<open>HH:MM:SS\<close> with three or six digits of a fraction or none, and an
  offset \<^verbatim>\<open>+HH:MM\<close> or \<^verbatim>\<open>-HH:MM\<close> or none.
\<close>

definition parse_date :: "string \<Rightarrow> int option" where
  "parse_date s =
     (case (number (take 4 s), number (take 2 (drop 5 s)), number (take 2 (drop 8 s))) of
        (Some y, Some m, Some d) \<Rightarrow>
          (if length s = 10 \<and> s ! 4 = CHR ''-'' \<and> s ! 7 = CHR ''-''
              \<and> 1 \<le> y \<and> 1 \<le> m \<and> m \<le> 12 \<and> 1 \<le> d \<and> d \<le> days_in_month y m
           then Some (ymd2ord y m d) else None)
      | _ \<Rightarrow> None)"

definition parse_hh_mm :: "string \<Rightarrow> int option" where
  "parse_hh_mm s =
     (case (number (take 2 s), number (take 2 (drop 3 s))) of
        (Some hh, Some mm) \<Rightarrow>
          (if length s = 5 \<and> s ! 2 = CHR '':'' \<and> hh < 24 \<and> mm < 60
           then Some ((hh * 60 + mm) * 60 * us_per_second) else None)
      | _ \<Rightarrow> None)"

definition parse_time :: "string \<Rightarrow> int option" where
  "parse_time s =
     (case (parse_hh_mm (take 5 s), number (take 2 (drop 6 s))) of
        (Some hm, Some ss) \<Rightarrow>
          (if 8 \<le> length s \<and> s ! 5 = CHR '':'' \<and> ss < 60
           then (if length s = 8 then Some (hm + ss * us_per_second)
                 else if length s = 12 \<and> s ! 8 = CHR ''.''
                 then map_option (\<lambda>f. hm + ss * us_per_second + f * 1000) (number (drop 9 s))
                 else if length s = 15 \<and> s ! 8 = CHR ''.''
                 then map_option (\<lambda>f. hm + ss * us_per_second + f) (number (drop 9 s))
                 else None)
           else None)
      | _ \<Rightarrow> None)"

definition is_sign :: "char \<Rightarrow> bool" where
  "is_sign c = (c = CHR ''+'' \<or> c = CHR ''-'')"

definition parse_isoformat :: "string \<Rightarrow> datetime option" where
  "parse_isoformat s =
     (case parse_date (take 10 s) of
        None \<Rightarrow> None
      | Some n \<Rightarrow>
          (if length s = 10 then Some \<lparr>wall = n * us_per_day, fold_dt = False, tz = None\<rparr>
           else
             (let tstr = drop 11 s;
                  timestr = takeWhile (\<lambda>c. \<not> is_sign c) tstr;
                  tzstr = dropWhile (\<lambda>c. \<not> is_sign c) tstr
              in case parse_time timestr of
                   None \<Rightarrow> None
                 | Some t \<Rightarrow>
                     (if tzstr = []
                      then Some \<lparr>wall = n * us_per_day + t, fold_dt = False, tz = None\<rparr>
                      else (case parse_hh_mm (tl tzstr) of
                              None \<Rightarrow> None
                            | Some k \<Rightarrow>
                                Some \<lparr>wall = n * us_per_day + t, fold_dt = False,
                                      tz = Some (FixedOffset (if hd tzstr = CHR ''-'' then - k else k))\<rparr>)))))"

text \<open>\<^verbatim>\<open>repr\<close> of the values that are no containers.\<close>

definition repr_scalar :: "pyval \<Rightarrow> string" where
  "repr_scalar v =
     (case v of
        PyNone \<Rightarrow> ''None''
      | PyBool b \<Rightarrow> (if b then ''True'' else ''False'')
      | PyInt i \<Rightarrow> str_int i
      | PyFloat s \<Rightarrow> s
      | _ \<Rightarrow> [])"

text \<open>A platform whose local zone is UTC, with the clock at the given UTC reading.\<close>

definition utc_platform :: "int \<Rightarrow> platform" where
  "utc_platform clock =
     \<lparr>json_loads = json_decode,
      fromisoformat = parse_isoformat,
      zone_utcoffset = (\<lambda>w f. 0),
      zone_fromutc = (\<lambda>u. (u, False)),
      utc_clock = clock,
      py_repr = repr_scalar\<rparr>"

section \<open>Examples\<close>

text \<open>The reference instant of the examples: Saturday 2024-01-06T08:00:00, in UTC.\<close>

definition saturday_platform :: platform where
  "saturday_platform = utc_platform (wall_of 2024 1 6 8 0 0 0)"

definition local_dt :: "int \<Rightarrow> datetime" where
  "local_dt w = \<lparr>wall = w, fold_dt = False, tz = Some LocalZone\<rparr>"

definition friday_text :: string where
  \<open>friday_text = ''{"summary":"Friday standup","start":{"dateTime":"2024-01-01T09:00:00","timeZone":"UTC"},"end":{"dateTime":"2024-01-01T09:30:00","timeZone":"UTC"}}''\<close>

definition stamp :: "string \<Rightarrow> pyval" where
  "stamp s = PyDict [(''dateTime'', PyStr s), (''timeZone'', PyStr ''UTC'')]"

definition friday_event :: pyval where
  "friday_event = PyDict
     [(''summary'', PyStr ''Friday standup''),
      (''start'', stamp ''2024-01-01T09:00:00''),
      (''end'', stamp ''2024-01-01T09:30:00'')]"

definition friday_event_normalized :: pyval where
  "friday_event_normalized = PyDict
     [(''summary'', PyStr ''Friday standup''),
      (''start'', stamp ''2024-01-12T09:00:00+00:00''),
      (''end'', stamp ''2024-01-12T09:30:00+00:00'')]"

text \<open>An event that starts at the reference instant exactly.\<close>

definition event_at_reference :: pyval where
  "event_at_reference = PyDict
     [(''summary'', PyStr ''Standup''),
      (''start'', stamp ''2024-01-06T08:00:00''),
      (''end'', stamp ''2024-01-06T08:30:00'')]"


text \<open>An event three days back, and one that starts a day before the reference instant
  to the second.\<close>

definition dentist_event :: pyval where
  "dentist_event = PyDict
     [(''summary'', PyStr ''Dentist''),
      (''start'', stamp ''2024-01-03T09:00:00''),
      (''end'', stamp ''2024-01-03T10:00:00'')]"

definition day_before_event :: pyval where
  "day_before_event = PyDict
     [(''summary'', PyStr ''Dentist''),
      (''start'', stamp ''2024-01-05T08:00:00''),
      (''end'', stamp ''2024-01-05T09:00:00'')]"

definition day_before_event_normalized :: pyval where
  "day_before_event_normalized = PyDict
     [(''summary'', PyStr ''Dentist''),
      (''start'', stamp ''2024-01-06T08:00:00+00:00''),
      (''end'', stamp ''2024-01-06T09:00:00+00:00'')]"

subsection \<open>An unparseable timestamp\<close>

text \<open>A batch of two events; the timestamp of the second start is no timestamp.\<close>

definition batch_text :: string where
  \<open>batch_text = ''[{"summary":"Lunch","start":{"dateTime":"2024-02-01T12:00:00"},"end":{"dateTime":"2024-02-01T13:00:00"}},{"summary":"Broken","start":{"dateTime":"tomorrow at noon"},"end":{"dateTime":"2024-02-02T13:00:00"}}]''\<close>

definition lunch_event :: pyval where
  "lunch_event = PyDict
     [(''summary'', PyStr ''Lunch''),
      (''start'', PyDict [(''dateTime'', PyStr ''2024-02-01T12:00:00'')]),
      (''end'', PyDict [(''dateTime'', PyStr ''2024-02-01T13:00:00'')])]"

definition lunch_event_normalized :: pyval where
  "lunch_event_normalized = PyDict
     [(''summary'', PyStr ''Lunch''),
      (''start'', PyDict [(''dateTime'', PyStr ''2024-02-01T12:00:00+00:00'')]),
      (''end'', PyDict [(''dateTime'', PyStr ''2024-02-01T13:00:00+00:00'')])]"

definition broken_event :: pyval where
  "broken_event = PyDict
     [(''summary'', PyStr ''Broken''),
      (''start'', PyDict [(''dateTime'', PyStr ''tomorrow at noon'')]),
      (''end'', PyDict [(''dateTime'', PyStr ''2024-02-02T13:00:00'')])]"

subsection \<open>An event without a summary\<close>

definition untitled_text :: string where
  \<open>untitled_text = ''{"start":{"dateTime":"2024-02-01T12:00:00"},"end":{"dateTime":"2024-02-01T13:00:00"}}''\<close>

definition untitled_event :: pyval where
  "untitled_event = PyDict
     [(''start'', PyDict [(''dateTime'', PyStr ''2024-02-01T12:00:00'')]),
      (''end'', PyDict [(''dateTime'', PyStr ''2024-02-01T13:00:00'')])]"

definition untitled_event_normalized :: pyval where
  "untitled_event_normalized = PyDict
     [(''start'', PyDict [(''dateTime'', PyStr ''2024-02-01T12:00:00+00:00'')]),
      (''end'', PyDict [(''dateTime'', PyStr ''2024-02-01T13:00:00+00:00'')])]"

text \<open>The same without a summary, but in the past of the reference instant.\<close>

definition untitled_past_event :: pyval where
  "untitled_past_event = PyDict
     [(''start'', PyDict [(''dateTime'', PyStr ''2024-01-02T12:00:00'')]),
      (''end'', PyDict [(''dateTime'', PyStr ''2024-01-02T13:00:00'')])]"

subsection \<open>The duration shown\<close>

text \<open>A normalized event of twenty-five hours.\<close>

definition long_event :: pyval where
  "long_event = PyDict
     [(''summary'', PyStr ''Hackathon''),
      (''start'', PyDict [(''dateTime'', PyStr ''2024-02-01T09:00:00+00:00'')]),
      (''end'', PyDict [(''dateTime'', PyStr ''2024-02-02T10:00:00+00:00'')])]"

subsection \<open>Fence stripping\<close>

text \<open>What the cleaning leaves of the first example in a fence with the tag
  \<^verbatim>\<open>python\<close>.\<close>

definition python_residue :: string where
  "python_residue = ''python'' @ [CHR 0x0A] @ friday_text"

subsection \<open>Timezone resolution\<close>

text \<open>
  A zone whose clocks go back by one hour at 2024-11-03T06:00:00 UTC, from four hours
  behind UTC to five, as those of \<^verbatim>\<open>America/New_York\<close> did: the local hour from 01:00 to
  02:00 of that day occurs twice, and the second time the fold bit is set. The clock of
  the platform stands at 05:30:00 UTC, which is 01:30:00 local time before the change.
\<close>

definition hour :: int where
  "hour = 3600 * us_per_second"

definition fall_back_platform :: platform where
  "fall_back_platform =
     \<lparr>json_loads = json_decode,
      fromisoformat = parse_isoformat,
      zone_utcoffset =
        (\<lambda>w f. if w < wall_of 2024 11 3 1 0 0 0 then - 4 * hour
               else if w < wall_of 2024 11 3 2 0 0 0 then (if f then - 5 * hour else - 4 * hour)
               else - 5 * hour),
      zone_fromutc =
        (\<lambda>u. if u < wall_of 2024 11 3 6 0 0 0 then (u - 4 * hour, False)
             else (u - 5 * hour, u < wall_of 2024 11 3 7 0 0 0)),
      utc_clock = wall_of 2024 11 3 5 30 0 0,
      py_repr = repr_scalar\<rparr>"

text \<open>An event with offsets, forty-five minutes after the clock of the platform: 01:15:00
  at five hours behind UTC is 06:15:00 UTC.\<close>

definition call_event :: pyval where
  "call_event = PyDict
     [(''summary'', PyStr ''Call''),
      (''start'', PyDict [(''dateTime'', PyStr ''2024-11-03T01:15:00-05:00'')]),
      (''end'', PyDict [(''dateTime'', PyStr ''2024-11-03T01:45:00-05:00'')])]"

definition call_event_normalized :: pyval where
  "call_event_normalized = PyDict
     [(''summary'', PyStr ''Call''),
      (''start'', PyDict [(''dateTime'', PyStr ''2024-11-04T01:15:00-05:00'')]),
      (''end'', PyDict [(''dateTime'', PyStr ''2024-11-04T01:45:00-05:00'')])]"

subsection \<open>Duration preservation\<close>



section \<open>Notions for the statements\<close>

text \<open>The properties below are stated with the following notions, which are not
  functions of the source. A character is solid when it is neither whitespace nor a
  backtick; a string is soft when none of its characters is solid.\<close>

definition backtick :: char where
  "backtick = CHR 0x60"

definition solid :: "char \<Rightarrow> bool" where
  "solid c = (\<not> isspace c \<and> c \<noteq> backtick)"

definition soft :: "string \<Rightarrow> bool" where
  "soft z = list_all (\<lambda>c. isspace c \<or> c = backtick) z"

text \<open>A text between an opening fence with its tag and whitespace, and whitespace with the
  closing fence.\<close>

definition fenced :: "string \<Rightarrow> string \<Rightarrow> string \<Rightarrow> string \<Rightarrow> string" where
  "fenced tag w1 j w2 = ''```'' @ tag @ w1 @ j @ w2 @ ''```''"


text \<open>A zone is consistent when the local reading it gives for a UTC reading has, at that
  reading and fold bit, the offset that leads back to the UTC reading.\<close>

definition zone_consistent :: "platform \<Rightarrow> bool" where
  "zone_consistent pf =
     (\<forall>u. fst (zone_fromutc pf u)
            - zone_utcoffset pf (fst (zone_fromutc pf u)) (snd (zone_fromutc pf u)) = u)"

section \<open>Soft decoding\<close>

text \<open>
  Claim C6. Whenever decoding the cleaned answer fails, or gives a value that is neither
  a list nor a dictionary, \<^verbatim>\<open>_extract_calendar_events\<close> returns the empty list. It raises
  nothing to its caller on any answer: its outer handler catches every exception, which is
  why the model's result is a plain list.
\<close>

theorem extract_soft_decode:
  assumes "json_loads pf (clean_fences txt) = None
     \<or> (\<exists>v. json_loads pf (clean_fences txt) = Some v
            \<and> (\<forall>events. v \<noteq> PyList events) \<and> (\<forall>kvs. v \<noteq> PyDict kvs))"
  shows "extract_calendar_events pf (Inr txt) = []"
  using assms
  by (auto simp: extract_calendar_events_def split: option.splits pyval.splits)

lemma clean_no_events_here: "clean_fences ''no events here'' = ''no events here''"
  by code_simp

lemma decode_no_events_here: "json_decode ''no events here'' = None"
  by code_simp

theorem extract_soft_decode_witness:
  "json_loads (utc_platform 0) (clean_fences ''no events here'') = None
   \<and> extract_calendar_events (utc_platform 0) (Inr ''no events here'') = []"
proof -
  have h: "json_loads (utc_platform 0) (clean_fences ''no events here'') = None"
    by (simp add: utc_platform_def clean_no_events_here decode_no_events_here)
  from h extract_soft_decode [of "utc_platform 0" "''no events here''"]
  show ?thesis by blast
qed

section \<open>The forward projection\<close>

subsection \<open>Facts about the steps\<close>

lemma weekday_range: "0 \<le> weekday d \<and> weekday d < 7"
  by (simp add: weekday_def)

lemma step_days_pos: "1 \<le> step_days friday start_time"
  using weekday_range [of start_time]
  by (auto simp: step_days_def friday_days_ahead_def Let_def)

lemma add_days_wall: "add_days d k = Inr d' \<Longrightarrow> wall d' = wall d + k * us_per_day"
  by (auto simp: add_days_def Let_def split: if_splits)

lemma us_per_day_pos: "0 < us_per_day"
  by (simp add: us_per_day_def us_per_second_def)

lemma day_div_shift: "(w + k * us_per_day) div us_per_day = w div us_per_day + k"
  using us_per_day_pos by simp

lemma days_cancel: "a * us_per_day < b * us_per_day \<longleftrightarrow> a < b"
  using us_per_day_pos by simp

lemma days_cancel_le: "a * us_per_day \<le> b * us_per_day \<longleftrightarrow> a \<le> b"
  using us_per_day_pos by simp

lemma in_range_between:
  assumes "in_range w" "in_range (w + k * us_per_day)" "0 \<le> j" "j \<le> k"
  shows "in_range (w + j * us_per_day)"
  using assms by (simp add: in_range_def day_div_shift)

lemma add_days_tz: "add_days d k = Inr d' \<Longrightarrow> tz d' = tz d"
  by (auto simp: add_days_def Let_def split: if_splits)

lemma add_days_in_range:
  "in_range (wall d + k * us_per_day) \<Longrightarrow>
     add_days d k = Inr (d\<lparr>wall := wall d + k * us_per_day, fold_dt := False\<rparr>)"
  by (simp add: add_days_def)

lemma weekday_add_days:
  assumes "add_days s k = Inr s1"
  shows "weekday s1 = (weekday s + k) mod 7"
proof -
  from add_days_wall [OF assms] have "toordinal s1 = toordinal s + k"
    by (simp add: toordinal_def day_div_shift)
  then show ?thesis by (simp add: weekday_def mod_simps algebra_simps)
qed

lemma friday_days_ahead_range: "1 \<le> friday_days_ahead s \<and> friday_days_ahead s \<le> 7"
  using weekday_range [of s] by (auto simp: friday_days_ahead_def Let_def)

lemma friday_days_ahead_lands:
  assumes "add_days s (friday_days_ahead s) = Inr s1"
  shows "weekday s1 = 4"
  using weekday_add_days [OF assms] weekday_range [of s]
  by (auto simp: friday_days_ahead_def Let_def split: if_splits)

lemma project_forward_done:
  "\<not> wall s < wall n \<Longrightarrow> project_forward n ev s e = Inr (s, e)"
  by (simp add: project_forward.simps)

lemma friday_step:
  assumes "mentions_friday ev = Inr True" and "wall s < wall n"
  shows "project_forward n ev s e =
           (case add_days s (friday_days_ahead s) of
              Inl err \<Rightarrow> Inl err
            | Inr s1 \<Rightarrow>
                (case add_days e (friday_days_ahead s) of
                   Inl err \<Rightarrow> Inl err
                 | Inr e1 \<Rightarrow> project_forward n ev s1 e1))"
  using assms
  by (simp add: project_forward.simps [of n ev s e] step_days_def split: sum.splits)

subsection \<open>What the loop returns\<close>


text \<open>Start and end move by the same amount, and keep their \<^verbatim>\<open>tzinfo\<close>.\<close>

lemma project_forward_shift:
  "project_forward n ev s e = Inr (s', e') \<Longrightarrow>
     wall e' - wall s' = wall e - wall s \<and> tz s' = tz s \<and> tz e' = tz e"
proof (induction n ev s e rule: project_forward.induct)
  case (1 n ev s e)
  show ?case
  proof (cases "wall s < wall n")
    case False
    with "1.prems" show ?thesis by (simp add: project_forward.simps)
  next
    case True
    with "1.prems" obtain fr s1 e1 where
      fr: "mentions_friday ev = Inr fr"
      and s1: "add_days s (step_days fr s) = Inr s1"
      and e1: "add_days e (step_days fr s) = Inr e1"
      and rec: "project_forward n ev s1 e1 = Inr (s', e')"
      by (auto simp: project_forward.simps [of n ev s e] split: sum.splits)
    from "1.IH" [OF True fr s1 e1 rec]
    have "wall e' - wall s' = wall e1 - wall s1" "tz s' = tz s1" "tz e' = tz e1" by simp_all
    with add_days_wall [OF s1] add_days_wall [OF e1] add_days_tz [OF s1] add_days_tz [OF e1]
    show ?thesis by simp
  qed
qed

text \<open>Without a Friday in the summary the loop makes the least number \<open>k\<close> of one-day
  steps that brings the start to the reference or behind it.\<close>

lemma project_forward_one_day:
  "mentions_friday ev = Inr False \<Longrightarrow> wall s < wall n \<Longrightarrow>
   wall n \<le> wall s + k * us_per_day \<Longrightarrow> wall s + (k - 1) * us_per_day < wall n \<Longrightarrow>
   in_range (wall s) \<Longrightarrow> in_range (wall e) \<Longrightarrow>
   in_range (wall s + k * us_per_day) \<Longrightarrow> in_range (wall e + k * us_per_day) \<Longrightarrow>
   project_forward n ev s e =
     Inr (s\<lparr>wall := wall s + k * us_per_day, fold_dt := False\<rparr>,
          e\<lparr>wall := wall e + k * us_per_day, fold_dt := False\<rparr>)"
proof (induction n ev s e arbitrary: k rule: project_forward.induct)
  case (1 n ev s e)
  let ?D = us_per_day
  let ?s1 = "s\<lparr>wall := wall s + 1 * ?D, fold_dt := False\<rparr>"
  let ?e1 = "e\<lparr>wall := wall e + 1 * ?D, fold_dt := False\<rparr>"
  have kpos: "1 \<le> k"
  proof (rule ccontr)
    assume "\<not> 1 \<le> k"
    then have "k \<le> 0" by simp
    then have "k * ?D \<le> 0 * ?D" by (simp only: days_cancel_le)
    with "1.prems"(2,3) show False by simp
  qed
  have rs: "in_range (wall s + 1 * ?D)"
    using in_range_between [OF "1.prems"(5) "1.prems"(7), of 1] kpos by simp
  have re: "in_range (wall e + 1 * ?D)"
    using in_range_between [OF "1.prems"(6) "1.prems"(8), of 1] kpos by simp
  have s1: "add_days s (step_days False s) = Inr ?s1"
    using add_days_in_range [OF rs] by (simp add: step_days_def)
  have e1: "add_days e (step_days False s) = Inr ?e1"
    using add_days_in_range [OF re] by (simp add: step_days_def)
  have unfold: "project_forward n ev s e = project_forward n ev ?s1 ?e1"
    using "1.prems"(1,2) s1 e1 by (simp add: project_forward.simps [of n ev s e])
  show ?case
  proof (cases "wall ?s1 < wall n")
    case False
    then have "wall n \<le> wall s + 1 * ?D" by simp
    with "1.prems"(4) have "(k - 1) * ?D < 1 * ?D" by simp
    then have "k - 1 < 1" by (simp only: days_cancel)
    with kpos have "k = 1" by simp
    with unfold project_forward_done [OF False, of ev ?e1] show ?thesis by simp
  next
    case True
    then have "wall s + 1 * ?D < wall s + k * ?D" using "1.prems"(3) by simp
    then have "1 * ?D < k * ?D" by simp
    then have k2: "1 < k" by (simp only: days_cancel)
    have a: "wall n \<le> wall ?s1 + (k - 1) * ?D"
      using "1.prems"(3) by (simp add: algebra_simps)
    have b: "wall ?s1 + (k - 1 - 1) * ?D < wall n"
      using "1.prems"(4) by (simp add: algebra_simps)
    have c: "in_range (wall ?s1)" using rs by simp
    have d: "in_range (wall ?e1)" using re by simp
    have e: "in_range (wall ?s1 + (k - 1) * ?D)"
      using "1.prems"(7) by (simp add: algebra_simps)
    have f: "in_range (wall ?e1 + (k - 1) * ?D)"
      using "1.prems"(8) by (simp add: algebra_simps)
    from "1.IH" [OF "1.prems"(2) "1.prems"(1) s1 e1 "1.prems"(1) True a b c d e f]
    have "project_forward n ev ?s1 ?e1 =
      Inr (?s1\<lparr>wall := wall ?s1 + (k - 1) * ?D, fold_dt := False\<rparr>,
           ?e1\<lparr>wall := wall ?e1 + (k - 1) * ?D, fold_dt := False\<rparr>)" .
    with unfold show ?thesis by (simp add: algebra_simps)
  qed
qed

subsection \<open>From the loop to the event\<close>

lemma to_local_tz_local: "to_local_tz pf d = Inr d' \<Longrightarrow> tz d' = Some LocalZone"
  by (auto simp: to_local_tz_def split: option.splits tzinfo.splits if_splits)

lemma resolve_local:
  "resolve pf ev = Inr (s, e) \<Longrightarrow> tz s = Some LocalZone \<and> tz e = Some LocalZone"
  by (auto simp: resolve_def split: sum.splits dest: to_local_tz_local)

lemma adjust_event_steps:
  "adjust_event pf ev = Inr ev' \<Longrightarrow>
     \<exists>s e s' e'. resolve pf ev = Inr (s, e) \<and> project_forward (now pf) ev s e = Inr (s', e')
        \<and> write_back pf ev s' e' = Inr ev'"
  by (auto simp: adjust_event_def split: sum.splits)






section \<open>The examples evaluated\<close>

lemma friday_text_clean: "clean_fences friday_text = friday_text"
  by code_simp

lemma friday_text_decode: "json_decode friday_text = Some friday_event"
  by code_simp

lemma friday_event_adjust:
  "adjust_event saturday_platform friday_event = Inr friday_event_normalized"
  by code_simp

lemma friday_example:
  "extract_calendar_events saturday_platform (Inr friday_text) = [friday_event_normalized]"
  using friday_event_adjust
  by (simp add: extract_calendar_events_def friday_text_clean saturday_platform_def
        utc_platform_def friday_text_decode friday_event_def)


lemma event_at_reference_resolve:
  "resolve saturday_platform event_at_reference
     = Inr (local_dt (wall_of 2024 1 6 8 0 0 0), local_dt (wall_of 2024 1 6 8 30 0 0))"
  by code_simp

lemma saturday_now: "now saturday_platform = local_dt (wall_of 2024 1 6 8 0 0 0)"
  by code_simp

lemma day_before_event_adjust:
  "adjust_event saturday_platform day_before_event = Inr day_before_event_normalized"
  by code_simp

section \<open>The forward invariant\<close>












section \<open>Duration preservation\<close>

text \<open>
  Whatever steps the loop takes, it adds the same days to both \<^verbatim>\<open>datetime\<close>s: the
  difference of their wall-clock readings, which is what Python's \<^verbatim>\<open>end_time - start_time\<close>
  is between two \<^verbatim>\<open>datetime\<close>s of one zone, is that of the two as they were resolved.
\<close>

lemma wall_duration_preserved:
  assumes "adjust_event pf ev = Inr ev'"
  shows "\<exists>s e s' e'. resolve pf ev = Inr (s, e)
           \<and> project_forward (now pf) ev s e = Inr (s', e')
           \<and> write_back pf ev s' e' = Inr ev'
           \<and> dt_sub pf e' s' = dt_sub pf e s
           \<and> dt_sub pf e' s' = Inr (wall e - wall s)"
proof -
  from adjust_event_steps [OF assms] obtain s e s' e' where
    r: "resolve pf ev = Inr (s, e)"
    and p: "project_forward (now pf) ev s e = Inr (s', e')"
    and w: "write_back pf ev s' e' = Inr ev'" by blast
  from project_forward_shift [OF p] resolve_local [OF r]
  have "dt_sub pf e' s' = Inr (wall e - wall s)" "dt_sub pf e s = Inr (wall e - wall s)"
    by (simp_all add: dt_sub_def)
  with r p w show ?thesis by simp
qed


section \<open>The one-day fallback\<close>

text \<open>
  Claim C9, as amended. For a past-dated event whose summary is a string without
  \<^verbatim>\<open>friday\<close> in it, each iteration moves start and end by one day, and the loop ends: it
  returns the start moved by \<open>k\<close> days, where \<open>k\<close> is the least number of whole days that
  brings the start to the reference instant or behind it. The dates are assumed to stay
  within the range of \<^verbatim>\<open>datetime\<close>; beyond it the addition raises \<^verbatim>\<open>OverflowError\<close>.
\<close>

theorem one_day_projection:
  assumes "mentions_friday ev = Inr False"
    and "wall s < wall n"
    and "wall n \<le> wall s + k * us_per_day"
    and "wall s + (k - 1) * us_per_day < wall n"
    and "in_range (wall s)" and "in_range (wall e)"
    and "in_range (wall s + k * us_per_day)" and "in_range (wall e + k * us_per_day)"
  shows "project_forward n ev s e =
           Inr (s\<lparr>wall := wall s + k * us_per_day, fold_dt := False\<rparr>,
                e\<lparr>wall := wall e + k * us_per_day, fold_dt := False\<rparr>)
         \<and> step_days False s = 1 \<and> 1 \<le> k"
proof -
  have "1 \<le> k"
  proof (rule ccontr)
    assume "\<not> 1 \<le> k"
    then have "k \<le> 0" by simp
    then have "k * us_per_day \<le> 0 * us_per_day" by (simp only: days_cancel_le)
    with assms(2,3) show False by simp
  qed
  with project_forward_one_day [OF assms] show ?thesis by (simp add: step_days_def)
qed

lemma dentist_no_friday: "mentions_friday dentist_event = Inr False"
  by code_simp

lemma dentist_event_resolve:
  "resolve saturday_platform dentist_event
     = Inr (local_dt (wall_of 2024 1 3 9 0 0 0), local_dt (wall_of 2024 1 3 10 0 0 0))"
  by code_simp

theorem one_day_projection_witness:
  "resolve saturday_platform dentist_event
     = Inr (local_dt (wall_of 2024 1 3 9 0 0 0), local_dt (wall_of 2024 1 3 10 0 0 0))
   \<and> mentions_friday dentist_event = Inr False
   \<and> wall (local_dt (wall_of 2024 1 3 9 0 0 0)) < wall (now saturday_platform)
   \<and> project_forward (now saturday_platform) dentist_event
        (local_dt (wall_of 2024 1 3 9 0 0 0)) (local_dt (wall_of 2024 1 3 10 0 0 0))
      = Inr (local_dt (wall_of 2024 1 6 9 0 0 0), local_dt (wall_of 2024 1 6 10 0 0 0))"
proof -
  let ?s = "local_dt (wall_of 2024 1 3 9 0 0 0)"
  let ?e = "local_dt (wall_of 2024 1 3 10 0 0 0)"
  let ?n = "now saturday_platform"
  have a: "wall ?s < wall ?n" by code_simp
  have b: "wall ?n \<le> wall ?s + 3 * us_per_day" by code_simp
  have c: "wall ?s + (3 - 1) * us_per_day < wall ?n" by code_simp
  have d: "in_range (wall ?s)" "in_range (wall ?e)"
    "in_range (wall ?s + 3 * us_per_day)" "in_range (wall ?e + 3 * us_per_day)"
    by code_simp+
  have f: "?s\<lparr>wall := wall ?s + 3 * us_per_day, fold_dt := False\<rparr>
             = local_dt (wall_of 2024 1 6 9 0 0 0)"
    "?e\<lparr>wall := wall ?e + 3 * us_per_day, fold_dt := False\<rparr>
             = local_dt (wall_of 2024 1 6 10 0 0 0)"
    by code_simp+
  from one_day_projection [OF dentist_no_friday a b c d]
  have "project_forward ?n dentist_event ?s ?e
          = Inr (local_dt (wall_of 2024 1 6 9 0 0 0), local_dt (wall_of 2024 1 6 10 0 0 0))"
    by (simp only: f)
  with dentist_event_resolve dentist_no_friday a show ?thesis by blast
qed

text \<open>
  The claim as it stands has the loop end at the first day whose time is strictly future.
  An event that starts one day before the reference instant, to the second, is moved by
  one day only, and its start is then the reference instant itself.
\<close>

lemma day_before_event_start:
  "parse_dateTime saturday_platform day_before_event_normalized ''start''
     = Inr \<lparr>wall = wall_of 2024 1 6 8 0 0 0, fold_dt = False, tz = Some (FixedOffset 0)\<rparr>"
  by code_simp

theorem day_before_counterexample:
  "mentions_friday day_before_event = Inr False
   \<and> adjust_event saturday_platform day_before_event = Inr day_before_event_normalized
   \<and> (\<exists>d. parse_dateTime saturday_platform day_before_event_normalized ''start'' = Inr d
          \<and> instant saturday_platform d = instant saturday_platform (now saturday_platform))"
proof -
  have "instant saturday_platform
          \<lparr>wall = wall_of 2024 1 6 8 0 0 0, fold_dt = False, tz = Some (FixedOffset 0)\<rparr>
        = instant saturday_platform (now saturday_platform)"
    by code_simp
  moreover have "mentions_friday day_before_event = Inr False" by code_simp
  ultimately show ?thesis using day_before_event_adjust day_before_event_start by blast
qed

section \<open>The Friday rule\<close>

text \<open>
  Claim C4. For a past-dated event whose summary contains \<^verbatim>\<open>friday\<close> in any case, an
  iteration moves start and end by \<open>4 - weekday\<close> days, and by seven more when that is zero
  or negative: between one and seven days, seven from a Friday, and always onto a Friday.
  The example of the specification: with the reference instant Saturday 2024-01-06T08:00:00
  UTC, the event \<^verbatim>\<open>Friday standup\<close> of Monday 2024-01-01, 09:00 to 09:30, is returned for
  Friday 2024-01-12, 09:00 to 09:30 (the timestamps are written with the offset of the zone).
\<close>

theorem friday_projection:
  "(mentions_friday ev = Inr True \<and> wall s < wall n \<longrightarrow>
      project_forward n ev s e =
        (case add_days s (friday_days_ahead s) of
           Inl err \<Rightarrow> Inl err
         | Inr s1 \<Rightarrow>
             (case add_days e (friday_days_ahead s) of
                Inl err \<Rightarrow> Inl err
              | Inr e1 \<Rightarrow> project_forward n ev s1 e1))
      \<and> friday_days_ahead s
          = (if 4 - weekday s \<le> 0 then 4 - weekday s + 7 else 4 - weekday s)
      \<and> 1 \<le> friday_days_ahead s \<and> friday_days_ahead s \<le> 7
      \<and> (weekday s = 4 \<longrightarrow> friday_days_ahead s = 7)
      \<and> (\<forall>s1. add_days s (friday_days_ahead s) = Inr s1 \<longrightarrow> weekday s1 = 4))
   \<and> extract_calendar_events saturday_platform (Inr friday_text) = [friday_event_normalized]"
proof (intro conjI impI allI)
  assume a: "mentions_friday ev = Inr True \<and> wall s < wall n"
  then show "project_forward n ev s e =
        (case add_days s (friday_days_ahead s) of
           Inl err \<Rightarrow> Inl err
         | Inr s1 \<Rightarrow>
             (case add_days e (friday_days_ahead s) of
                Inl err \<Rightarrow> Inl err
              | Inr e1 \<Rightarrow> project_forward n ev s1 e1))"
    using friday_step [of ev s n e] by simp
  show "friday_days_ahead s = (if 4 - weekday s \<le> 0 then 4 - weekday s + 7 else 4 - weekday s)"
    by (simp add: friday_days_ahead_def Let_def)
  show "1 \<le> friday_days_ahead s" "friday_days_ahead s \<le> 7"
    using friday_days_ahead_range [of s] by simp_all
next
  assume "weekday s = 4"
  then show "friday_days_ahead s = 7" by (simp add: friday_days_ahead_def)
next
  fix s1
  assume "add_days s (friday_days_ahead s) = Inr s1"
  then show "weekday s1 = 4" by (rule friday_days_ahead_lands)
next
  show "extract_calendar_events saturday_platform (Inr friday_text) = [friday_event_normalized]"
    by (rule friday_example)
qed

lemma friday_event_mentions: "mentions_friday friday_event = Inr True"
  by code_simp

theorem friday_projection_witness:
  "mentions_friday friday_event = Inr True
   \<and> wall (local_dt (wall_of 2024 1 5 9 0 0 0)) < wall (now saturday_platform)
   \<and> weekday (local_dt (wall_of 2024 1 5 9 0 0 0)) = 4
   \<and> friday_days_ahead (local_dt (wall_of 2024 1 5 9 0 0 0)) = 7
   \<and> project_forward (now saturday_platform) friday_event
        (local_dt (wall_of 2024 1 5 9 0 0 0)) (local_dt (wall_of 2024 1 5 9 30 0 0))
      = Inr (local_dt (wall_of 2024 1 12 9 0 0 0), local_dt (wall_of 2024 1 12 9 30 0 0))"
proof -
  let ?s = "local_dt (wall_of 2024 1 5 9 0 0 0)"
  let ?e = "local_dt (wall_of 2024 1 5 9 30 0 0)"
  let ?n = "now saturday_platform"
  have a: "wall ?s < wall ?n" by code_simp
  have w: "weekday ?s = 4" by code_simp
  from friday_projection [of friday_event ?s ?n ?e] friday_event_mentions a w
  have d: "friday_days_ahead ?s = 7"
    and u: "project_forward ?n friday_event ?s ?e =
        (case add_days ?s (friday_days_ahead ?s) of
           Inl err \<Rightarrow> Inl err
         | Inr s1 \<Rightarrow>
             (case add_days ?e (friday_days_ahead ?s) of
                Inl err \<Rightarrow> Inl err
              | Inr e1 \<Rightarrow> project_forward ?n friday_event s1 e1))"
    by blast+
  have s1: "add_days ?s 7 = Inr (local_dt (wall_of 2024 1 12 9 0 0 0))" by code_simp
  have e1: "add_days ?e 7 = Inr (local_dt (wall_of 2024 1 12 9 30 0 0))" by code_simp
  have fin: "\<not> wall (local_dt (wall_of 2024 1 12 9 0 0 0)) < wall ?n" by code_simp
  from u have "project_forward ?n friday_event ?s ?e
      = project_forward ?n friday_event (local_dt (wall_of 2024 1 12 9 0 0 0))
          (local_dt (wall_of 2024 1 12 9 30 0 0))"
    by (simp only: d s1 e1 sum.case)
  with project_forward_done [OF fin] have
    "project_forward ?n friday_event ?s ?e
      = Inr (local_dt (wall_of 2024 1 12 9 0 0 0), local_dt (wall_of 2024 1 12 9 30 0 0))"
    by simp
  with friday_event_mentions a w d show ?thesis by blast
qed

section \<open>An unparseable timestamp\<close>

lemma batch_text_clean: "clean_fences batch_text = batch_text"
  by code_simp

lemma batch_text_decode: "json_decode batch_text = Some (PyList [lunch_event, broken_event])"
  by code_simp

lemma lunch_event_adjust:
  "adjust_event saturday_platform lunch_event = Inr lunch_event_normalized"
  by code_simp

lemma broken_event_start:
  "parse_dateTime saturday_platform broken_event ''start'' = Inl ValueError"
  by code_simp

lemma adjust_event_unparseable:
  assumes "parse_dateTime pf ev ''start'' = Inl ValueError
           \<or> parse_dateTime pf ev ''end'' = Inl ValueError"
  shows "\<exists>err. adjust_event pf ev = Inl err"
  using assms by (auto simp: adjust_event_def resolve_def split: sum.splits)

lemma adjust_event_dates_fails:
  "ev \<in> set events \<Longrightarrow> adjust_event pf ev = Inl err \<Longrightarrow>
     \<exists>err'. adjust_event_dates pf events = Inl err'"
  by (induction events) (auto split: sum.splits)

text \<open>
  Claim C2, as amended. The source has no handler around the parsing of one event. An
  unparseable start or end timestamp raises \<^verbatim>\<open>ValueError\<close> out of
  \<^verbatim>\<open>_adjust_event_dates\<close>, whatever the other events of the batch are, and
  \<^verbatim>\<open>_extract_calendar_events\<close> catches it and returns the empty list: no event of the
  batch is returned.
\<close>

theorem unparseable_aborts_batch:
  assumes "ev \<in> set events"
    and "parse_dateTime pf ev ''start'' = Inl ValueError
         \<or> parse_dateTime pf ev ''end'' = Inl ValueError"
  shows "(\<exists>err. adjust_event_dates pf events = Inl err)
         \<and> (json_loads pf (clean_fences txt) = Some (PyList events) \<longrightarrow>
              extract_calendar_events pf (Inr txt) = [])"
proof -
  from adjust_event_unparseable [OF assms(2)] obtain err where "adjust_event pf ev = Inl err"
    by blast
  from adjust_event_dates_fails [OF assms(1) this] obtain err' where
    "adjust_event_dates pf events = Inl err'" by blast
  then show ?thesis by (simp add: extract_calendar_events_def)
qed

theorem unparseable_aborts_batch_witness:
  "broken_event \<in> set [lunch_event, broken_event]
   \<and> parse_dateTime saturday_platform broken_event ''start'' = Inl ValueError
   \<and> json_loads saturday_platform (clean_fences batch_text)
        = Some (PyList [lunch_event, broken_event])
   \<and> (\<exists>err. adjust_event_dates saturday_platform [lunch_event, broken_event] = Inl err)
   \<and> extract_calendar_events saturday_platform (Inr batch_text) = []"
proof -
  have m: "broken_event \<in> set [lunch_event, broken_event]" by simp
  have d: "json_loads saturday_platform (clean_fences batch_text)
        = Some (PyList [lunch_event, broken_event])"
    by (simp add: saturday_platform_def utc_platform_def batch_text_clean batch_text_decode)
  from unparseable_aborts_batch [OF m, of saturday_platform batch_text] broken_event_start d m
  show ?thesis by blast
qed

text \<open>
  The claim as it stands keeps the parseable sibling in the result. Here the first event
  of the batch is normalized when it is alone, and the batch of the two gives nothing.
\<close>

theorem batch_emptied_counterexample:
  "json_loads saturday_platform (clean_fences batch_text)
        = Some (PyList [lunch_event, broken_event])
   \<and> adjust_event_dates saturday_platform [lunch_event] = Inr [lunch_event_normalized]
   \<and> parse_dateTime saturday_platform broken_event ''start'' = Inl ValueError
   \<and> extract_calendar_events saturday_platform (Inr batch_text) = []"
proof -
  have d: "json_loads saturday_platform (clean_fences batch_text)
        = Some (PyList [lunch_event, broken_event])"
    by (simp add: saturday_platform_def utc_platform_def batch_text_clean batch_text_decode)
  have a: "adjust_event_dates saturday_platform [lunch_event] = Inr [lunch_event_normalized]"
    by (simp add: lunch_event_adjust)
  have b: "adjust_event saturday_platform broken_event = Inl ValueError"
    by code_simp
  have "adjust_event_dates saturday_platform [lunch_event, broken_event] = Inl ValueError"
    by (simp add: lunch_event_adjust b)
  then have "extract_calendar_events saturday_platform (Inr batch_text) = []"
    using d by (simp add: extract_calendar_events_def)
  with d a broken_event_start show ?thesis by blast
qed

section \<open>An event without a summary\<close>

lemma untitled_text_clean: "clean_fences untitled_text = untitled_text"
  by code_simp

lemma untitled_text_decode: "json_decode untitled_text = Some untitled_event"
  by code_simp

lemma untitled_event_adjust:
  "adjust_event saturday_platform untitled_event = Inr untitled_event_normalized"
  by code_simp

lemma untitled_extract:
  "extract_calendar_events saturday_platform (Inr untitled_text) = [untitled_event_normalized]"
  using untitled_event_adjust
  by (simp add: extract_calendar_events_def untitled_text_clean saturday_platform_def
        utc_platform_def untitled_text_decode untitled_event_def)

text \<open>The listing of \<^verbatim>\<open>chat\<close> reads the summary with a default: an event without the key
  is listed under the title \<^verbatim>\<open>Untitled Event\<close>.\<close>

lemma untitled_event_listed:
  assumes "map_of kvs ''summary'' = None"
    and "map_of kvs ''start'' = Some (PyDict inner)"
    and "map_of inner ''dateTime'' = Some (PyStr st)"
  shows "detected_line pf (PyDict kvs) = Inr (''- Untitled Event at '' @ st)"
  using assms by (simp add: detected_line_def py_str_def)

text \<open>The confirmation gate and the loop of the normalizer read it without a default: for
  every event without the key the gate raises \<^verbatim>\<open>KeyError\<close>, and so does the normalizer
  once the resolved start is before the reference.\<close>

lemma confirmation_line_no_summary:
  "map_of kvs ''summary'' = None \<Longrightarrow> confirmation_line pf (PyDict kvs) = Inl KeyError"
  by (simp add: confirmation_line_def)

lemma adjust_event_no_summary:
  assumes "map_of kvs ''summary'' = None"
    and "resolve pf (PyDict kvs) = Inr (s, e)"
    and "wall s < wall (now pf)"
  shows "adjust_event pf (PyDict kvs) = Inl KeyError"
  using assms
  by (simp add: adjust_event_def mentions_friday_def
        project_forward.simps [of "now pf" "PyDict kvs" s e])

text \<open>
  Claim C8 asks that the pipeline tolerate an event without a summary: normalization,
  display and confirmation. The listing of line 58 does, with the title
  \<^verbatim>\<open>Untitled Event\<close>, and so does the normalization of an event that is not in the past.
  The confirmation gate (line 193) does not: for the event that \<^verbatim>\<open>chat\<close> has just listed
  it raises \<^verbatim>\<open>KeyError\<close>, which leaves \<^verbatim>\<open>chat\<close>. Nor does the loop of the normalizer
  (line 173): the same event in the past raises \<^verbatim>\<open>KeyError\<close> there, and the parser returns
  no event.
\<close>

theorem untitled_event_raises:
  "extract_calendar_events saturday_platform (Inr untitled_text) = [untitled_event_normalized]
   \<and> detected_line saturday_platform untitled_event_normalized
        = Inr ''- Untitled Event at 2024-02-01T12:00:00+00:00''
   \<and> confirmation_line saturday_platform untitled_event_normalized = Inl KeyError
   \<and> ask_for_confirmation saturday_platform [untitled_event_normalized] ''yes'' = Inl KeyError
   \<and> chat_to_decision saturday_platform (Inr untitled_text) ''yes'' = Inl KeyError
   \<and> adjust_event saturday_platform untitled_past_event = Inl KeyError
   \<and> adjust_event_dates saturday_platform [untitled_past_event] = Inl KeyError"
proof -
  have a: "detected_line saturday_platform untitled_event_normalized
        = Inr ''- Untitled Event at 2024-02-01T12:00:00+00:00''"
    by code_simp
  have b: "confirmation_line saturday_platform untitled_event_normalized = Inl KeyError"
    by code_simp
  have b': "ask_for_confirmation saturday_platform [untitled_event_normalized] ''yes''
              = Inl KeyError"
    by (simp add: ask_for_confirmation_def b)
  have c: "chat_to_decision saturday_platform (Inr untitled_text) ''yes'' = Inl KeyError"
    by (simp add: chat_to_decision_def untitled_extract a b ask_for_confirmation_def)
  have d: "adjust_event saturday_platform untitled_past_event = Inl KeyError"
    by code_simp
  then have d': "adjust_event_dates saturday_platform [untitled_past_event] = Inl KeyError"
    by simp
  from untitled_extract a b b' c d d' show ?thesis by blast
qed

section \<open>The duration shown\<close>

text \<open>
  Claim C10 asks for the hours of the whole elapsed time. \<^verbatim>\<open>_calculate_duration\<close> takes
  them from the attribute \<^verbatim>\<open>seconds\<close> of the difference, which is what is left of the last
  day: for the event of twenty-five hours (90000 seconds) it shows one hour.
\<close>

theorem long_event_duration:
  "adjust_event saturday_platform long_event = Inr long_event
   \<and> calculate_duration saturday_platform long_event = Inr ''1 hours and 0 minutes''
   \<and> (\<exists>s e d. parse_dateTime saturday_platform long_event ''start'' = Inr s
         \<and> parse_dateTime saturday_platform long_event ''end'' = Inr e
         \<and> dt_sub saturday_platform e s = Inr d
         \<and> td_total_seconds d = 90000
         \<and> td_total_seconds d div 3600 = 25
         \<and> (td_total_seconds d mod 3600) div 60 = 0)"
proof -
  let ?s = "\<lparr>wall = wall_of 2024 2 1 9 0 0 0, fold_dt = False, tz = Some (FixedOffset 0)\<rparr>"
  let ?e = "\<lparr>wall = wall_of 2024 2 2 10 0 0 0, fold_dt = False, tz = Some (FixedOffset 0)\<rparr>"
  have a: "adjust_event saturday_platform long_event = Inr long_event" by code_simp
  have b: "calculate_duration saturday_platform long_event = Inr ''1 hours and 0 minutes''"
    by code_simp
  have s: "parse_dateTime saturday_platform long_event ''start'' = Inr ?s" by code_simp
  have e: "parse_dateTime saturday_platform long_event ''end'' = Inr ?e" by code_simp
  have d: "dt_sub saturday_platform ?e ?s = Inr (90000 * us_per_second)" by code_simp
  have t: "td_total_seconds (90000 * us_per_second) = 90000"
    "td_total_seconds (90000 * us_per_second) div 3600 = 25"
    "(td_total_seconds (90000 * us_per_second) mod 3600) div 60 = 0"
    by code_simp+
  from a b s e d t show ?thesis by blast
qed

section \<open>Fence stripping\<close>

subsection \<open>Characters around a fence\<close>

lemma re_sub_fences_unfold:
  "s \<noteq> [] \<Longrightarrow> re_sub_fences s =
     (if startswith s ''```json''
      then re_sub_fences (dropWhile isspace (drop 7 s))
      else if startswith (dropWhile isspace s) ''```''
      then re_sub_fences (drop 3 (dropWhile isspace s))
      else hd s # re_sub_fences (tl s))"
  by (cases s) (simp_all add: re_sub_fences.simps)

lemma backtick_not_space: "\<not> isspace backtick"
  by (simp add: backtick_def isspace_def)

lemma json_letters_solid: "solid CHR ''j''" "solid CHR ''s''" "solid CHR ''o''" "solid CHR ''n''"
  by (simp_all add: solid_def isspace_def backtick_def)

lemma soft_hd: "soft z \<Longrightarrow> z \<noteq> [] \<Longrightarrow> \<not> solid (hd z)"
  by (cases z) (auto simp: soft_def solid_def)

lemma startswith_length:
  assumes "startswith s p"
  shows "length p \<le> length s"
proof -
  from assms have "length (take (length p) s) = length p" by (simp add: startswith_def)
  then show ?thesis by simp
qed

lemma startswith_nth: "startswith s p \<Longrightarrow> i < length p \<Longrightarrow> s ! i = p ! i"
  unfolding startswith_def
  by (metis nth_take)

lemma startswith_append_long:
  "length p \<le> length y \<Longrightarrow> startswith (y @ z) p = startswith y p"
  by (simp add: startswith_def)

text \<open>A prefix test on \<open>y @ z\<close> is decided within \<open>y\<close>, when \<open>y\<close> ends in a solid
  character and \<open>z\<close> begins with a soft one.\<close>

lemma startswith_append_fence7:
  assumes "y \<noteq> []" and "solid (last y)" and "soft z"
  shows "startswith (y @ z) ''```json'' = startswith y ''```json''"
proof (cases "7 \<le> length y")
  case True
  then show ?thesis by (simp add: startswith_append_long)
next
  case False
  have ny: "\<not> startswith y ''```json''"
    using startswith_length [of y "''```json''"] False by auto
  have "\<not> startswith (y @ z) ''```json''"
  proof
    assume sw: "startswith (y @ z) ''```json''"
    from startswith_length [OF sw] have len: "7 \<le> length (y @ z)" by simp
    have nth: "\<And>i. i < 7 \<Longrightarrow> (y @ z) ! i = ''```json'' ! i"
      using startswith_nth [OF sw] by simp
    have "0 < length y" using assms(1) by simp
    with False have cases: "length y = 1 \<or> length y = 2 \<or> length y = 3
        \<or> length y = 4 \<or> length y = 5 \<or> length y = 6"
      by arith
    have ly: "last y = (y @ z) ! (length y - 1)"
      using assms(1) by (simp add: last_conv_nth nth_append)
    have hz: "hd z = (y @ z) ! length y" "z \<noteq> []"
      using len False by (cases z; auto simp: nth_append)+
    have nsz: "\<not> solid ((y @ z) ! length y)"
      using soft_hd [OF assms(3) hz(2)] hz(1) by simp
    have sl: "solid ((y @ z) ! (length y - 1))"
      using assms(2) ly by simp
    from cases sl nsz nth [of "length y - 1"] nth [of "length y"] json_letters_solid
    show False
      by (auto simp: solid_def backtick_def)
  qed
  with ny show ?thesis by simp
qed

lemma startswith_append_fence3:
  assumes "y \<noteq> []" and "solid (last y)"
  shows "startswith (y @ z) ''```'' = startswith y ''```''"
proof (cases "3 \<le> length y")
  case True
  then show ?thesis by (simp add: startswith_append_long)
next
  case False
  have ny: "\<not> startswith y ''```''"
    using startswith_length [of y "''```''"] False by auto
  have "\<not> startswith (y @ z) ''```''"
  proof
    assume sw: "startswith (y @ z) ''```''"
    have nth: "\<And>i. i < 3 \<Longrightarrow> (y @ z) ! i = ''```'' ! i"
      using startswith_nth [OF sw] by simp
    have "0 < length y" using assms(1) by simp
    with False have cases: "length y = 1 \<or> length y = 2"
      by arith
    have ly: "last y = (y @ z) ! (length y - 1)"
      using assms(1) by (simp add: last_conv_nth nth_append)
    have sl: "solid ((y @ z) ! (length y - 1))"
      using assms(2) ly by simp
    from cases sl nth [of "length y - 1"]
    show False
      by (auto simp: solid_def backtick_def)
  qed
  with ny show ?thesis by simp
qed

subsection \<open>The scan behind a solid character\<close>

lemma solid_last_in_set: "y \<noteq> [] \<Longrightarrow> solid (last y) \<Longrightarrow> \<exists>x\<in>set y. \<not> isspace x"
  using last_in_set [of y] by (auto simp: solid_def)

lemma dropWhile_append_solid:
  assumes "y \<noteq> []" and "solid (last y)"
  shows "dropWhile isspace (y @ z) = dropWhile isspace y @ z"
proof -
  from solid_last_in_set [OF assms] obtain x where "x \<in> set y" "\<not> isspace x" by blast
  then show ?thesis by (rule dropWhile_append1)
qed

lemma dropWhile_solid_last:
  assumes "y \<noteq> []" and "solid (last y)"
  shows "dropWhile isspace y \<noteq> [] \<and> last (dropWhile isspace y) = last y"
proof -
  from solid_last_in_set [OF assms] have ne: "dropWhile isspace y \<noteq> []"
    by (simp add: dropWhile_eq_Nil_conv)
  have "y = takeWhile isspace y @ dropWhile isspace y" by simp
  then have "last y = last (takeWhile isspace y @ dropWhile isspace y)" by simp
  also have "\<dots> = last (dropWhile isspace y)" using ne by (rule last_appendR)
  finally show ?thesis using ne by simp
qed

lemma drop_solid_last:
  "n < length y \<Longrightarrow> drop n y \<noteq> [] \<and> last (drop n y) = last y"
  by (simp add: last_drop)

lemma re_sub_fences_step:
  assumes "y \<noteq> []" and "solid (last y)" and "soft z"
  shows "re_sub_fences (y @ z) =
     (if startswith y ''```json''
      then re_sub_fences (dropWhile isspace (drop 7 y @ z))
      else if startswith (dropWhile isspace y) ''```''
      then re_sub_fences (drop 3 (dropWhile isspace y) @ z)
      else hd y # re_sub_fences (tl y @ z))"
proof -
  let ?d = "dropWhile isspace y"
  have ne: "y @ z \<noteq> []" using assms(1) by simp
  have d: "?d \<noteq> []" "solid (last ?d)"
    using dropWhile_solid_last [OF assms(1,2)] assms(2) by simp_all
  have a: "startswith (y @ z) ''```json'' = startswith y ''```json''"
    by (rule startswith_append_fence7 [OF assms])
  have b: "dropWhile isspace (y @ z) = ?d @ z"
    by (rule dropWhile_append_solid [OF assms(1,2)])
  have c: "startswith (?d @ z) ''```'' = startswith ?d ''```''"
    by (rule startswith_append_fence3 [OF d])
  have e: "startswith y ''```json'' \<Longrightarrow> drop 7 (y @ z) = drop 7 y @ z"
    using startswith_length [of y "''```json''"] by simp
  have f: "startswith ?d ''```'' \<Longrightarrow> drop 3 (?d @ z) = drop 3 ?d @ z"
    using startswith_length [of ?d "''```''"] by simp
  show ?thesis
    using assms(1) e f
    by (simp add: re_sub_fences_unfold [OF ne] a b c)
qed

lemma rstrip_Cons:
  "rstrip (c # a) = (if rstrip a = [] then rstrip [c] else c # rstrip a)"
  by (auto simp: rstrip_def dropWhile_append dropWhile_eq_Nil_conv)

lemma rstrip_Cons_cong: "rstrip a = rstrip b \<Longrightarrow> rstrip (c # a) = rstrip (c # b)"
  by (simp add: rstrip_Cons)

lemma rstrip_spaces: "list_all isspace u \<Longrightarrow> rstrip u = []"
  by (simp add: rstrip_def dropWhile_eq_Nil_conv list_all_iff)

lemma space_not_backtick: "isspace a \<Longrightarrow> a \<noteq> CHR 0x60"
  by (auto simp: isspace_def)

lemma rstrip_Nil: "rstrip [] = []"
  by (simp add: rstrip_def)

lemma re_sub_fences_spaces: "list_all isspace u \<Longrightarrow> re_sub_fences u = u"
proof (induction u)
  case Nil
  then show ?case by (simp add: re_sub_fences.simps)
next
  case (Cons a u)
  then have all: "\<forall>x\<in>set (a # u). isspace x" by (simp add: list_all_iff)
  then have d: "dropWhile isspace (a # u) = []" by (simp only: dropWhile_eq_Nil_conv)
  have n: "\<not> startswith (a # u) ''```json''"
    using Cons.prems space_not_backtick [of a] by (simp add: startswith_def)
  have e: "\<not> startswith [] ''```''" by (simp add: startswith_def)
  have "re_sub_fences (a # u) = a # re_sub_fences u"
    using re_sub_fences_unfold [of "a # u"] n e by (simp only: d) simp
  with Cons show ?case by simp
qed

lemma dropWhile_spaces_append:
  "list_all isspace v \<Longrightarrow> dropWhile isspace (v @ x) = dropWhile isspace x"
  by (simp add: dropWhile_append list_all_iff)

lemma re_sub_fences_fence3: "re_sub_fences ''```'' = []"
  by code_simp

lemma re_sub_fences_closing:
  assumes "list_all isspace v"
  shows "re_sub_fences (v @ ''```'') = []"
proof (cases v)
  case Nil
  then show ?thesis by (simp add: re_sub_fences_fence3)
next
  case (Cons a v')
  then have sp: "isspace a" using assms by simp
  have ne: "v @ ''```'' \<noteq> []" by simp
  have a: "\<not> startswith (v @ ''```'') ''```json''"
    using Cons space_not_backtick [OF sp] by (simp add: startswith_def)
  have b: "dropWhile isspace (v @ ''```'') = ''```''"
    using dropWhile_spaces_append [OF assms, of "''```''"] by (simp add: isspace_def)
  have c: "startswith ''```'' ''```''" by (simp add: startswith_def)
  show ?thesis
    using re_sub_fences_unfold [OF ne] a c
    by (simp only: b) (simp add: re_sub_fences.simps)
qed

text \<open>Behind a text that ends in a solid character, the closing fence with the
  whitespace before it leaves what trailing whitespace leaves, up to the stripping.\<close>

lemma re_sub_fences_trailing:
  assumes u: "list_all isspace u" and v: "list_all isspace v"
  shows "y = [] \<or> solid (last y) \<Longrightarrow>
         rstrip (re_sub_fences (y @ v @ ''```'')) = rstrip (re_sub_fences (y @ u))"
proof (induction y rule: length_induct)
  case (1 y)
  have su: "soft u" using u by (simp add: soft_def list_all_iff)
  have sv: "soft (v @ ''```'')" using v by (simp add: soft_def list_all_iff backtick_def)
  have base: "rstrip (re_sub_fences (v @ ''```'')) = rstrip (re_sub_fences u)"
    by (simp add: re_sub_fences_closing [OF v] re_sub_fences_spaces [OF u] rstrip_spaces [OF u]
          rstrip_Nil)
  show ?case
  proof (cases "y = []")
    case True
    with base show ?thesis by simp
  next
    case False
    with "1.prems" have sl: "solid (last y)" by simp
    note stepu = re_sub_fences_step [OF False sl su]
    note stepv = re_sub_fences_step [OF False sl sv]
    let ?d = "dropWhile isspace y"
    have d: "?d \<noteq> []" "last ?d = last y"
      using dropWhile_solid_last [OF False sl] by simp_all
    consider (json) "startswith y ''```json''"
      | (fence) "\<not> startswith y ''```json''" "startswith ?d ''```''"
      | (keep) "\<not> startswith y ''```json''" "\<not> startswith ?d ''```''"
      by blast
    then show ?thesis
    proof cases
      case json
      let ?y1 = "drop 7 y"
      show ?thesis
      proof (cases "?y1 = []")
        case True
        have dv: "dropWhile isspace (?y1 @ v @ ''```'') = ''```''"
          using dropWhile_spaces_append [OF v, of "''```''"] True by (simp add: isspace_def)
        have du: "dropWhile isspace (?y1 @ u) = []"
          using u True by (simp add: dropWhile_eq_Nil_conv list_all_iff)
        have "re_sub_fences (y @ v @ ''```'') = re_sub_fences ''```''"
          using json by (simp only: stepv if_True dv)
        moreover have "re_sub_fences (y @ u) = re_sub_fences []"
          using json by (simp only: stepu if_True du)
        ultimately show ?thesis
          by (simp only: re_sub_fences_fence3 re_sub_fences.simps(1))
      next
        case ne: False
        then have l1: "last ?y1 = last y" by (simp add: last_drop)
        with sl have s1: "solid (last ?y1)" by simp
        let ?y2 = "dropWhile isspace ?y1"
        have y2: "?y2 \<noteq> []" "last ?y2 = last ?y1"
          using dropWhile_solid_last [OF ne s1] by simp_all
        have len: "length ?y2 < length y"
          using length_dropWhile_le [of isspace ?y1] False json startswith_length [OF json]
          by simp
        have ih: "rstrip (re_sub_fences (?y2 @ v @ ''```'')) = rstrip (re_sub_fences (?y2 @ u))"
        proof (rule "1.IH" [rule_format, OF len])
          show "?y2 = [] \<or> solid (last ?y2)" using y2 s1 by simp
        qed
        have "re_sub_fences (y @ v @ ''```'') = re_sub_fences (?y2 @ v @ ''```'')"
          using json by (simp only: stepv if_True dropWhile_append_solid [OF ne s1])
        moreover have "re_sub_fences (y @ u) = re_sub_fences (?y2 @ u)"
          using json by (simp only: stepu if_True dropWhile_append_solid [OF ne s1])
        ultimately show ?thesis using ih by simp
      qed
    next
      case fence
      let ?y3 = "drop 3 ?d"
      have "length ?d \<noteq> 3"
      proof
        assume l3: "length ?d = 3"
        from startswith_nth [OF fence(2), of 2] have "?d ! 2 = backtick"
          by (simp add: backtick_def)
        moreover have "last ?d = ?d ! 2" using l3 d(1) by (simp add: last_conv_nth)
        ultimately show False using sl d(2) by (simp add: solid_def)
      qed
      with startswith_length [OF fence(2)] have l4: "3 < length ?d" by simp
      then have y3: "?y3 \<noteq> []" "last ?y3 = last y"
        using d(2) by (simp_all add: last_drop)
      have len: "length ?y3 < length y"
        using length_dropWhile_le [of isspace y] l4 by simp
      have ih: "rstrip (re_sub_fences (?y3 @ v @ ''```'')) = rstrip (re_sub_fences (?y3 @ u))"
      proof (rule "1.IH" [rule_format, OF len])
        show "?y3 = [] \<or> solid (last ?y3)" using y3 sl by simp
      qed
      moreover have "re_sub_fences (y @ v @ ''```'') = re_sub_fences (?y3 @ v @ ''```'')"
        using fence by (simp only: stepv if_False if_True)
      moreover have "re_sub_fences (y @ u) = re_sub_fences (?y3 @ u)"
        using fence by (simp only: stepu if_False if_True)
      ultimately show ?thesis by simp
    next
      case keep
      have t: "tl y = [] \<or> solid (last (tl y))"
        using sl False by (cases y) (auto split: if_splits)
      have len: "length (tl y) < length y" using False by simp
      have ih: "rstrip (re_sub_fences (tl y @ v @ ''```'')) = rstrip (re_sub_fences (tl y @ u))"
        by (rule "1.IH" [rule_format, OF len t])
      have "re_sub_fences (y @ v @ ''```'') = hd y # re_sub_fences (tl y @ v @ ''```'')"
        using keep by (simp only: stepv if_False)
      moreover have "re_sub_fences (y @ u) = hd y # re_sub_fences (tl y @ u)"
        using keep by (simp only: stepu if_False)
      ultimately show ?thesis using rstrip_Cons_cong [OF ih] by simp
    qed
  qed
qed

subsection \<open>A fenced text\<close>

lemma re_sub_fences_keep_first:
  assumes "x \<noteq> []" and "solid (hd x)"
  shows "re_sub_fences x = hd x # re_sub_fences (tl x)"
proof -
  from assms obtain a x' where x: "x = a # x'" by (cases x) auto
  with assms(2) have a: "\<not> isspace a" "a \<noteq> CHR 0x60" by (simp_all add: solid_def backtick_def)
  then have "\<not> startswith x ''```json''" "dropWhile isspace x = x" "\<not> startswith x ''```''"
    using x by (simp_all add: startswith_def)
  then show ?thesis using re_sub_fences_unfold [OF assms(1)] by simp
qed

lemma re_sub_fences_leading:
  assumes "x \<noteq> []" and "solid (hd x)"
  shows "list_all isspace l \<Longrightarrow> re_sub_fences (l @ x) = l @ re_sub_fences x"
proof (induction l)
  case Nil
  then show ?case by simp
next
  case (Cons a l)
  then have sp: "isspace a" "list_all isspace l" by simp_all
  have ne: "(a # l) @ x \<noteq> []" by simp
  have n7: "\<not> startswith ((a # l) @ x) ''```json''"
    using space_not_backtick [OF sp(1)] by (simp add: startswith_def)
  have d: "dropWhile isspace ((a # l) @ x) = x"
  proof -
    have "dropWhile isspace ((a # l) @ x) = dropWhile isspace x"
      using Cons.prems by (rule dropWhile_spaces_append)
    also have "\<dots> = x" using assms by (cases x) (simp_all add: solid_def)
    finally show ?thesis .
  qed
  have n3: "\<not> startswith x ''```''"
    using assms by (cases x) (simp_all add: startswith_def solid_def backtick_def)
  have "re_sub_fences ((a # l) @ x) = a # re_sub_fences (l @ x)"
    using re_sub_fences_unfold [OF ne] n7 n3 by (simp only: d if_False) simp
  with Cons.IH [OF sp(2)] show ?case by simp
qed

lemma lstrip_leading: "list_all isspace l \<Longrightarrow> lstrip (l @ x) = lstrip x"
  by (simp add: lstrip_def dropWhile_spaces_append)

lemma lstrip_solid: "\<not> isspace a \<Longrightarrow> lstrip (a # x) = a # x"
  by (simp add: lstrip_def)

lemma rstrip_decompose: "x = rstrip x @ rev (takeWhile isspace (rev x))"
  unfolding rstrip_def
  by (metis rev_append rev_rev_ident takeWhile_dropWhile_id)

text \<open>A text is its leading whitespace, its stripped core and its trailing whitespace.\<close>

lemma strip_decompose:
  "\<exists>l t. j = l @ strip j @ t \<and> list_all isspace l \<and> list_all isspace t"
proof -
  let ?l = "takeWhile isspace j"
  let ?m = "lstrip j"
  let ?t = "rev (takeWhile isspace (rev ?m))"
  have m: "?m = strip j @ ?t" unfolding strip_def by (rule rstrip_decompose)
  have "j = ?l @ ?m" by (simp add: lstrip_def)
  with m have "j = ?l @ strip j @ ?t" by simp
  moreover have "list_all isspace ?l" by (simp add: list_all_iff) (metis set_takeWhileD)
  moreover have "list_all isspace ?t" by (simp add: list_all_iff) (metis set_takeWhileD)
  ultimately show ?thesis by blast
qed

lemma strip_ends:
  assumes "strip j \<noteq> []"
  shows "\<not> isspace (hd (strip j)) \<and> \<not> isspace (last (strip j))"
proof -
  let ?m = "lstrip j"
  have r: "dropWhile isspace (rev ?m) \<noteq> []" using assms by (simp add: strip_def rstrip_def)
  then have a: "\<not> isspace (hd (dropWhile isspace (rev ?m)))" by (rule hd_dropWhile)
  have "last (strip j) = hd (dropWhile isspace (rev ?m))"
    using r by (simp add: strip_def rstrip_def last_rev)
  with a have l: "\<not> isspace (last (strip j))" by simp
  have mne: "?m \<noteq> []" using assms by (auto simp: strip_def rstrip_def)
  then have hm: "\<not> isspace (hd ?m)" unfolding lstrip_def by (rule hd_dropWhile)
  have "?m = strip j @ rev (takeWhile isspace (rev ?m))"
    unfolding strip_def by (rule rstrip_decompose)
  then obtain t' where "?m = strip j @ t'" by blast
  with assms have "hd ?m = hd (strip j)" by (metis hd_append2)
  with hm l show ?thesis by simp
qed

text \<open>The cleaned text of a core between whitespace, whatever follows the core.\<close>

lemma strip_re_sub_fences_core:
  assumes "c \<noteq> []" and "solid (hd c)" and "list_all isspace l"
  shows "strip (l @ re_sub_fences (c @ z)) = rstrip (re_sub_fences (c @ z))"
proof -
  have ne: "c @ z \<noteq> []" using assms(1) by simp
  have hd: "solid (hd (c @ z))" using assms(1,2) by simp
  from re_sub_fences_keep_first [OF ne hd]
  have k: "re_sub_fences (c @ z) = hd c # re_sub_fences (tl (c @ z))" using assms(1) by simp
  have "lstrip (l @ re_sub_fences (c @ z)) = lstrip (re_sub_fences (c @ z))"
    using assms(3) by (rule lstrip_leading)
  also have "\<dots> = re_sub_fences (c @ z)"
    using assms(2) by (simp only: k) (simp add: lstrip_solid solid_def)
  finally show ?thesis by (simp add: strip_def)
qed

lemma clean_fences_core:
  assumes "c \<noteq> []" and "solid (hd c)" and "list_all isspace l"
  shows "clean_fences (l @ c @ z) = rstrip (re_sub_fences (c @ z))"
proof -
  have ne: "c @ z \<noteq> []" using assms(1) by simp
  have hd: "solid (hd (c @ z))" using assms(1,2) by simp
  have "re_sub_fences (l @ c @ z) = l @ re_sub_fences (c @ z)"
    using re_sub_fences_leading [OF ne hd assms(3)] .
  then show ?thesis
    using strip_re_sub_fences_core [OF assms] by (simp add: clean_fences_def)
qed

lemma re_sub_fences_opening_json:
  "re_sub_fences (''```json'' @ x) = re_sub_fences (dropWhile isspace x)"
proof -
  have "startswith (''```json'' @ x) ''```json''" by (simp add: startswith_def)
  then show ?thesis using re_sub_fences_unfold [of "''```json'' @ x"] by simp
qed

lemma re_sub_fences_opening_bare:
  assumes "w1 \<noteq> []" and "list_all isspace w1"
  shows "re_sub_fences (''```'' @ w1 @ x) = re_sub_fences (w1 @ x)"
proof -
  from assms obtain a w where w: "w1 = a # w" "isspace a" by (cases w1) auto
  then have aj: "a \<noteq> CHR ''j''" by (auto simp: isspace_def)
  have n7: "\<not> startswith (''```'' @ w1 @ x) ''```json''"
    using w aj by (simp add: startswith_def)
  have d: "dropWhile isspace (''```'' @ w1 @ x) = ''```'' @ w1 @ x"
    by (simp add: isspace_def)
  have s3: "startswith (''```'' @ w1 @ x) ''```''" by (simp add: startswith_def)
  have ne: "''```'' @ w1 @ x \<noteq> []" by simp
  show ?thesis
    using re_sub_fences_unfold [OF ne] n7 s3 by (simp only: d if_False if_True) simp
qed

lemma clean_fences_fenced:
  assumes tag: "tag = ''json'' \<or> (tag = [] \<and> w1 \<noteq> [])"
    and w1: "list_all isspace w1" and w2: "list_all isspace w2"
    and ne: "strip j \<noteq> []"
    and first: "hd (strip j) \<noteq> CHR 0x60"
    and final: "last (strip j) \<noteq> CHR 0x60"
  shows "clean_fences (fenced tag w1 j w2) = clean_fences j"
proof -
  let ?c = "strip j"
  obtain l t where j: "j = l @ ?c @ t" and l: "list_all isspace l" and t: "list_all isspace t"
    using strip_decompose by blast
  from strip_ends [OF ne] first final
  have shd: "solid (hd ?c)" and slast: "solid (last ?c)" by (simp_all add: solid_def backtick_def)
  have v: "list_all isspace (t @ w2)" using t w2 by simp
  have plain: "clean_fences j = rstrip (re_sub_fences (?c @ t))"
    using clean_fences_core [OF ne shd l, of t] j by simp
  have trail: "rstrip (re_sub_fences (?c @ (t @ w2) @ ''```'')) = rstrip (re_sub_fences (?c @ t))"
    using re_sub_fences_trailing [OF t v, of ?c] slast by simp
  have wl: "list_all isspace (w1 @ l)" using w1 l by simp
  have body: "w1 @ j @ w2 @ ''```'' = (w1 @ l) @ ?c @ (t @ w2) @ ''```''"
    using j by (metis append.assoc)
  have cz: "?c @ (t @ w2) @ ''```'' \<noteq> []" "solid (hd (?c @ (t @ w2) @ ''```''))"
    using ne shd by simp_all
  have dw: "dropWhile isspace (w1 @ j @ w2 @ ''```'') = ?c @ (t @ w2) @ ''```''"
  proof -
    have "dropWhile isspace ((w1 @ l) @ ?c @ (t @ w2) @ ''```'')
            = dropWhile isspace (?c @ (t @ w2) @ ''```'')"
      using wl by (rule dropWhile_spaces_append)
    also have "\<dots> = ?c @ (t @ w2) @ ''```''"
      using cz by (cases "?c @ (t @ w2) @ ''```''") (simp_all add: solid_def)
    finally show ?thesis by (simp only: body)
  qed
  have wrapped: "clean_fences (fenced tag w1 j w2) = rstrip (re_sub_fences (?c @ (t @ w2) @ ''```''))"
  proof (cases "tag = ''json''")
    case True
    have "fenced tag w1 j w2 = ''```json'' @ (w1 @ j @ w2 @ ''```'')"
      using True by (simp add: fenced_def)
    then have "re_sub_fences (fenced tag w1 j w2) = re_sub_fences (?c @ (t @ w2) @ ''```'')"
      by (simp only: re_sub_fences_opening_json dw)
    then have "clean_fences (fenced tag w1 j w2) = clean_fences ([] @ ?c @ (t @ w2) @ ''```'')"
      by (simp add: clean_fences_def)
    also have "\<dots> = rstrip (re_sub_fences (?c @ (t @ w2) @ ''```''))"
      by (rule clean_fences_core [OF ne shd]) simp
    finally show ?thesis .
  next
    case False
    with tag have b: "tag = []" "w1 \<noteq> []" by simp_all
    have "fenced tag w1 j w2 = ''```'' @ w1 @ (j @ w2 @ ''```'')"
      using b by (simp add: fenced_def)
    then have "re_sub_fences (fenced tag w1 j w2) = re_sub_fences (w1 @ j @ w2 @ ''```'')"
      by (simp only: re_sub_fences_opening_bare [OF b(2) w1])
    then have "clean_fences (fenced tag w1 j w2)
                 = clean_fences ((w1 @ l) @ ?c @ (t @ w2) @ ''```'')"
      by (simp only: clean_fences_def body)
    also have "\<dots> = rstrip (re_sub_fences (?c @ (t @ w2) @ ''```''))"
      by (rule clean_fences_core [OF ne shd wl])
    finally show ?thesis .
  qed
  from wrapped trail plain show ?thesis by simp
qed

text \<open>
  Claim C7, as amended. The pattern names the tag \<^verbatim>\<open>json\<close> and no other. A text is given
  between an opening fence, which is \<^verbatim>\<open>```json\<close> or the bare \<^verbatim>\<open>```\<close> followed by
  whitespace, and a closing fence behind any whitespace. If the text, stripped, is not
  empty and neither begins nor ends with a backtick, as every JSON text is, the cleaned
  text is that of the unwrapped text, and so is the sequence of events.
\<close>

theorem fence_stripped:
  assumes "tag = ''json'' \<or> (tag = [] \<and> w1 \<noteq> [])"
    and "list_all isspace w1" and "list_all isspace w2"
    and "strip j \<noteq> []"
    and "hd (strip j) \<noteq> CHR 0x60"
    and "last (strip j) \<noteq> CHR 0x60"
  shows "clean_fences (fenced tag w1 j w2) = clean_fences j
         \<and> extract_calendar_events pf (Inr (fenced tag w1 j w2))
             = extract_calendar_events pf (Inr j)"
  using clean_fences_fenced [OF assms] by (simp add: extract_calendar_events_def)

lemma friday_text_strip: "strip friday_text = friday_text"
  by code_simp

lemma friday_text_ends:
  "friday_text \<noteq> [] \<and> hd friday_text \<noteq> CHR 0x60 \<and> last friday_text \<noteq> CHR 0x60"
  by code_simp

theorem fence_stripped_witness:
  "list_all isspace [CHR 0x0A]
   \<and> strip friday_text = friday_text
   \<and> clean_fences (fenced ''json'' [CHR 0x0A] friday_text [CHR 0x0A]) = clean_fences friday_text
   \<and> extract_calendar_events saturday_platform
        (Inr (fenced ''json'' [CHR 0x0A] friday_text [CHR 0x0A])) = [friday_event_normalized]"
proof -
  have sp: "list_all isspace [CHR 0x0A]" by (simp add: isspace_def)
  have tag: "''json'' = ''json'' \<or> (''json'' = [] \<and> [CHR 0x0A] \<noteq> [])" by simp
  have a: "strip friday_text \<noteq> []" "hd (strip friday_text) \<noteq> CHR 0x60"
    "last (strip friday_text) \<noteq> CHR 0x60"
    using friday_text_ends by (simp_all add: friday_text_strip)
  from fence_stripped [OF tag sp sp a, of saturday_platform] friday_example friday_text_strip sp
  show ?thesis by simp
qed

text \<open>
  The claim as it stands has a fence of any tag stripped. Of the fence \<^verbatim>\<open>```python\<close> the
  tag stays in the cleaned text, which is then no JSON text: the wrapped example gives no
  event, the unwrapped one gives its event.
\<close>

lemma python_fence_clean:
  "clean_fences (fenced ''python'' [CHR 0x0A] friday_text [CHR 0x0A]) = python_residue"
  by code_simp

lemma python_fence_decode: "json_decode python_residue = None"
  by code_simp

theorem python_fence_counterexample:
  "clean_fences (fenced ''python'' [CHR 0x0A] friday_text [CHR 0x0A]) = python_residue
   \<and> python_residue = ''python'' @ [CHR 0x0A] @ friday_text
   \<and> extract_calendar_events saturday_platform
        (Inr (fenced ''python'' [CHR 0x0A] friday_text [CHR 0x0A])) = []
   \<and> extract_calendar_events saturday_platform (Inr friday_text) = [friday_event_normalized]"
proof -
  have "extract_calendar_events saturday_platform
        (Inr (fenced ''python'' [CHR 0x0A] friday_text [CHR 0x0A])) = []"
    by (simp add: extract_calendar_events_def python_fence_clean python_fence_decode
          saturday_platform_def utc_platform_def)
  with python_fence_clean friday_example python_residue_def show ?thesis by blast
qed

section \<open>Timezone resolution\<close>

text \<open>A timestamp without an offset keeps its reading and gets the local zone.\<close>

lemma to_local_tz_naive:
  "tz d = None \<Longrightarrow> to_local_tz pf d = Inr (d\<lparr>tz := Some LocalZone\<rparr>)"
  by (simp add: to_local_tz_def)

text \<open>A timestamp with an offset denotes the same instant after the conversion.\<close>

lemma to_local_tz_aware:
  assumes "zone_consistent pf" and "tz d = Some (FixedOffset k)" and "to_local_tz pf d = Inr d'"
  shows "tz d' = Some LocalZone \<and> instant pf d' = instant pf d"
proof -
  from assms(2,3) have d': "d' = \<lparr>wall = fst (zone_fromutc pf (wall d - k)),
      fold_dt = snd (zone_fromutc pf (wall d - k)), tz = Some LocalZone\<rparr>"
    by (auto simp: to_local_tz_def split: if_splits)
  from assms(1) have "fst (zone_fromutc pf (wall d - k))
     - zone_utcoffset pf (fst (zone_fromutc pf (wall d - k))) (snd (zone_fromutc pf (wall d - k)))
     = wall d - k"
    by (simp add: zone_consistent_def)
  with d' assms(2) show ?thesis by (simp add: instant_def utcoffset_def)
qed

text \<open>An event whose start, read on the local wall clock, is not before the reference is
  written back as it was resolved.\<close>

lemma adjust_event_not_before:
  "resolve pf ev = Inr (s, e) \<Longrightarrow> \<not> wall s < wall (now pf) \<Longrightarrow>
     adjust_event pf ev = write_back pf ev s e"
  by (simp add: adjust_event_def project_forward_done)

lemma fall_back_consistent: "zone_consistent fall_back_platform"
  by (simp add: zone_consistent_def fall_back_platform_def wall_of_def ymd2ord_def
        days_before_year_def days_before_month_def DAYS_BEFORE_MONTH_def is_leap_def
        us_per_day_def us_per_second_def hour_def)

text \<open>
  Claim C5 holds for the resolution of one timestamp (the two lemmas above). Its last part
  fails in the repeated hour: the start of the event is in the future of the reference
  instant, but its local reading 01:15:00 is below the reading 01:30:00 of the reference,
  and the loop compares the readings. The event is moved by a day, to another instant.
\<close>

theorem fold_hour_event_advanced:
  "instant fall_back_platform (now fall_back_platform) = Some (wall_of 2024 11 3 5 30 0 0)
   \<and> parse_dateTime fall_back_platform call_event ''start''
        = Inr \<lparr>wall = wall_of 2024 11 3 1 15 0 0, fold_dt = False,
               tz = Some (FixedOffset (- 5 * hour))\<rparr>
   \<and> instant fall_back_platform
        \<lparr>wall = wall_of 2024 11 3 1 15 0 0, fold_dt = False,
         tz = Some (FixedOffset (- 5 * hour))\<rparr> = Some (wall_of 2024 11 3 6 15 0 0)
   \<and> resolve fall_back_platform call_event
        = Inr (\<lparr>wall = wall_of 2024 11 3 1 15 0 0, fold_dt = True, tz = Some LocalZone\<rparr>,
               \<lparr>wall = wall_of 2024 11 3 1 45 0 0, fold_dt = True, tz = Some LocalZone\<rparr>)
   \<and> wall (now fall_back_platform) = wall_of 2024 11 3 1 30 0 0
   \<and> adjust_event fall_back_platform call_event = Inr call_event_normalized
   \<and> parse_dateTime fall_back_platform call_event_normalized ''start''
        = Inr \<lparr>wall = wall_of 2024 11 4 1 15 0 0, fold_dt = False,
               tz = Some (FixedOffset (- 5 * hour))\<rparr>
   \<and> instant fall_back_platform
        \<lparr>wall = wall_of 2024 11 4 1 15 0 0, fold_dt = False,
         tz = Some (FixedOffset (- 5 * hour))\<rparr> = Some (wall_of 2024 11 4 6 15 0 0)"
proof -
  have a: "instant fall_back_platform (now fall_back_platform)
             = Some (wall_of 2024 11 3 5 30 0 0)"
    by code_simp
  have b: "parse_dateTime fall_back_platform call_event ''start''
        = Inr \<lparr>wall = wall_of 2024 11 3 1 15 0 0, fold_dt = False,
               tz = Some (FixedOffset (- 5 * hour))\<rparr>"
    by code_simp
  have c: "instant fall_back_platform
        \<lparr>wall = wall_of 2024 11 3 1 15 0 0, fold_dt = False,
         tz = Some (FixedOffset (- 5 * hour))\<rparr> = Some (wall_of 2024 11 3 6 15 0 0)"
    by code_simp
  have d: "resolve fall_back_platform call_event
        = Inr (\<lparr>wall = wall_of 2024 11 3 1 15 0 0, fold_dt = True, tz = Some LocalZone\<rparr>,
               \<lparr>wall = wall_of 2024 11 3 1 45 0 0, fold_dt = True, tz = Some LocalZone\<rparr>)"
    by code_simp
  have e: "wall (now fall_back_platform) = wall_of 2024 11 3 1 30 0 0"
    by code_simp
  have f: "adjust_event fall_back_platform call_event = Inr call_event_normalized"
    by code_simp
  have g: "parse_dateTime fall_back_platform call_event_normalized ''start''
        = Inr \<lparr>wall = wall_of 2024 11 4 1 15 0 0, fold_dt = False,
               tz = Some (FixedOffset (- 5 * hour))\<rparr>"
    by code_simp
  have h: "instant fall_back_platform
        \<lparr>wall = wall_of 2024 11 4 1 15 0 0, fold_dt = False,
         tz = Some (FixedOffset (- 5 * hour))\<rparr> = Some (wall_of 2024 11 4 6 15 0 0)"
    by code_simp
  from a b c d e f g h show ?thesis by blast
qed

end
